theory Spec2Isabelle
  imports Main "HOL-Library.AList" "HOL-Library.Multiset"
begin

section \<open>JavaScript values\<close>

text \<open>
  The cache stores what \<^verbatim>\<open>response.json()\<close> returns and tests it with JavaScript's
  truthiness, \<^verbatim>\<open>Array.isArray\<close> and property reads, so payloads are modelled as JavaScript
  values. Numbers are restricted to integers (fractions play no role in the cache logic).
  An object is an association list in insertion order; \<^const>\<open>AList.update\<close> is the
  assignment \<^verbatim>\<open>o[k] = v\<close> (replace in place, or append a new key).
  Properties inherited from a prototype (\<^verbatim>\<open>constructor\<close>, \<^verbatim>\<open>toString\<close>, ...) are not
  modelled: dynamic keys (bookmaker names, league slugs, event ids, market names) are taken
  not to be such names.
\<close>

datatype jsval =
    JUndefined
  | JNull
  | JBool bool
  | JNum int
  | JStr string
  | JArr "jsval list"
  | JObj "(string \<times> jsval) list"

fun truthy :: "jsval \<Rightarrow> bool" where
  "truthy JUndefined = False"
| "truthy JNull = False"
| "truthy (JBool b) = b"
| "truthy (JNum n) = (n \<noteq> 0)"
| "truthy (JStr s) = (s \<noteq> [])"
| "truthy (JArr xs) = True"
| "truthy (JObj kvs) = True"

fun nullish :: "jsval \<Rightarrow> bool" where
  "nullish JUndefined = True"
| "nullish JNull = True"
| "nullish v = False"

fun isArray :: "jsval \<Rightarrow> bool" where
  "isArray (JArr xs) = True"
| "isArray v = False"

fun elems :: "jsval \<Rightarrow> jsval list" where
  "elems (JArr xs) = xs"
| "elems v = []"

fun showNat :: "nat \<Rightarrow> string" where
  "showNat n =
     (if n < 10 then [''0123456789'' ! n]
      else showNat (n div 10) @ [''0123456789'' ! (n mod 10)])"

declare showNat.simps [simp del]

definition showInt :: "int \<Rightarrow> string" where
  "showInt i = (if i < 0 then CHR ''-'' # showNat (nat (- i)) else showNat (nat i))"

fun joinWith :: "string \<Rightarrow> string list \<Rightarrow> string" where
  "joinWith sep [] = []"
| "joinWith sep [x] = x"
| "joinWith sep (x # y # ys) = x @ sep @ joinWith sep (y # ys)"

text \<open>\<^verbatim>\<open>String(v)\<close>, as a template literal and a computed property key apply it.\<close>

fun toString :: "jsval \<Rightarrow> string" where
  "toString JUndefined = ''undefined''"
| "toString JNull = ''null''"
| "toString (JBool b) = (if b then ''true'' else ''false'')"
| "toString (JNum n) = showInt n"
| "toString (JStr s) = s"
| "toString (JArr xs) =
     joinWith '','' (map (\<lambda>x. if x = JNull \<or> x = JUndefined then [] else toString x) xs)"
| "toString (JObj kvs) = ''[object Object]''"

text \<open>
  The property read \<^verbatim>\<open>v[k]\<close> on a value that is neither \<^verbatim>\<open>null\<close> nor \<^verbatim>\<open>undefined\<close>
  (on those the read throws; every call site below either is guarded by a truthiness test
  or models the throw).
\<close>

definition getProp :: "jsval \<Rightarrow> string \<Rightarrow> jsval" where
  "getProp v k =
     (case v of
        JObj kvs \<Rightarrow> (case map_of kvs k of Some x \<Rightarrow> x | None \<Rightarrow> JUndefined)
      | JArr xs \<Rightarrow>
          (if k = ''length'' then JNum (int (length xs))
           else (case find (\<lambda>i. showNat i = k) [0..<length xs] of
                   Some i \<Rightarrow> xs ! i | None \<Rightarrow> JUndefined))
      | JStr s \<Rightarrow>
          (if k = ''length'' then JNum (int (length s))
           else (case find (\<lambda>i. showNat i = k) [0..<length s] of
                   Some i \<Rightarrow> JStr [s ! i] | None \<Rightarrow> JUndefined))
      | _ \<Rightarrow> JUndefined)"

text \<open>The own enumerable properties that \<^verbatim>\<open>{...v}\<close> copies.\<close>

definition spread :: "jsval \<Rightarrow> (string \<times> jsval) list" where
  "spread v =
     (case v of
        JObj kvs \<Rightarrow> kvs
      | JArr xs \<Rightarrow> map (\<lambda>i. (showNat i, xs ! i)) [0..<length xs]
      | JStr s \<Rightarrow> map (\<lambda>i. (showNat i, JStr [s ! i])) [0..<length s]
      | _ \<Rightarrow> [])"

text \<open>The values a \<^verbatim>\<open>for ... of\<close> loop visits; \<open>None\<close> when the value is not iterable.\<close>

definition iterate :: "jsval \<Rightarrow> jsval list option" where
  "iterate v =
     (case v of
        JArr xs \<Rightarrow> Some xs
      | JStr s \<Rightarrow> Some (map (\<lambda>c. JStr [c]) s)
      | _ \<Rightarrow> None)"

section \<open>The environment: configuration, host functions, upstream provider\<close>

datatype body = Json jsval | NotJson string

datatype reply = Rejected string | Response nat string body

text \<open>
  \<open>Rejected m\<close>: \<^verbatim>\<open>fetch\<close> rejects with message \<open>m\<close> (transport error).
  \<open>Response status statusText b\<close>: a response; \<open>NotJson m\<close> is a body on which
  \<^verbatim>\<open>response.json()\<close> rejects with message \<open>m\<close>.

  The fields of \<open>env\<close> are the module constants read from \<^verbatim>\<open>process.env\<close>
  (\<^verbatim>\<open>MAX_CALLS_PER_HOUR\<close> is \<^verbatim>\<open>parseInt(process.env.MAX_CALLS_PER_HOUR) || 5000\<close>, any
  non-zero integer), the host's date and number parsing, what the engine's
  \<^verbatim>\<open>Array.prototype.sort\<close> returns for a comparator and an array where ECMAScript leaves
  the order to the implementation, and the upstream provider: \<open>upstream n url\<close> is the
  time in milliseconds the \<open>n\<close>-th request (counted from 0) takes and what it returns.
\<close>

record env =
  ODDS_API_KEY :: string
  ODDS_API_BASE :: string
  MAX_CALLS_PER_HOUR :: int
  OPTIC_API_KEY :: string
  toISOString :: "int \<Rightarrow> string"
  DateParse :: "string \<Rightarrow> int option"
  StringToNumber :: "string \<Rightarrow> int option"
  engineSort :: "(jsval \<Rightarrow> jsval \<Rightarrow> int) \<Rightarrow> jsval list \<Rightarrow> jsval list"
  upstream :: "nat \<Rightarrow> string \<Rightarrow> nat \<times> reply"

text \<open>
  What the \<^verbatim>\<open>try\<close> block of \<^verbatim>\<open>fetchWithRateLimit\<close> and of \<^verbatim>\<open>fetchApi\<close> makes of a reply:
  the message of the error thrown (\<open>Inl\<close>), or the parsed data (\<open>Inr\<close>).
\<close>

fun fetchOutcome :: "reply \<Rightarrow> string + jsval" where
  "fetchOutcome (Rejected m) = Inl m"
| "fetchOutcome (Response status statusText b) =
     (if \<not> (200 \<le> status \<and> status \<le> 299)
      then Inl (''HTTP '' @ showNat status @ '': '' @ statusText)
      else (case b of NotJson m \<Rightarrow> Inl m | Json d \<Rightarrow> Inr d))"

text \<open>
  \<^verbatim>\<open>new Date(v).getTime()\<close>, with \<open>None\<close> for \<^verbatim>\<open>NaN\<close> (an invalid date).
\<close>

definition newDate :: "env \<Rightarrow> jsval \<Rightarrow> int option" where
  "newDate E v =
     (case v of
        JUndefined \<Rightarrow> None
      | JNull \<Rightarrow> Some 0
      | JBool b \<Rightarrow> Some (if b then 1 else 0)
      | JNum n \<Rightarrow> (if \<bar>n\<bar> \<le> 8640000000000000 then Some n else None)
      | JStr s \<Rightarrow> DateParse E s
      | _ \<Rightarrow> DateParse E (toString v))"

text \<open>\<^verbatim>\<open>v > 0\<close>.\<close>

definition gtZero :: "env \<Rightarrow> jsval \<Rightarrow> bool" where
  "gtZero E v =
     (case v of
        JUndefined \<Rightarrow> False
      | JNull \<Rightarrow> False
      | JBool b \<Rightarrow> b
      | JNum n \<Rightarrow> 0 < n
      | JStr s \<Rightarrow> (case StringToNumber E s of Some n \<Rightarrow> 0 < n | None \<Rightarrow> False)
      | _ \<Rightarrow> (case StringToNumber E (toString v) of Some n \<Rightarrow> 0 < n | None \<Rightarrow> False))"

section \<open>Sorting by date\<close>

text \<open>
  \<^verbatim>\<open>xs.sort((a, b) => new Date(a.date) - new Date(b.date))\<close>. The comparator's result is
  \<^verbatim>\<open>NaN\<close> when one of the two dates is invalid, which \<^verbatim>\<open>sort\<close> reads as \<open>+0\<close>.
\<close>

definition compareDates :: "env \<Rightarrow> jsval \<Rightarrow> jsval \<Rightarrow> int" where
  "compareDates E a b =
     (case (newDate E (getProp a ''date''), newDate E (getProp b ''date'')) of
        (Some x, Some y) \<Rightarrow> x - y
      | _ \<Rightarrow> 0)"

text \<open>An event whose date is valid, and its date as a number.\<close>

definition validDate :: "env \<Rightarrow> jsval \<Rightarrow> bool" where
  "validDate E e = (newDate E (getProp e ''date'') \<noteq> None)"

definition dateKey :: "env \<Rightarrow> jsval \<Rightarrow> int" where
  "dateKey E e = (case newDate E (getProp e ''date'') of Some t \<Rightarrow> t | None \<Rightarrow> 0)"

text \<open>
  For a comparator that is a consistent ordering of the elements, ECMAScript fixes what
  \<^verbatim>\<open>sort\<close> returns: the elements in ascending order, equal ones in their original order.
  \<open>stableSort\<close> computes it (each element is inserted before the first element of
  the sorted rest that is not smaller).
\<close>

fun stableInsert :: "('a \<Rightarrow> 'a \<Rightarrow> int) \<Rightarrow> 'a \<Rightarrow> 'a list \<Rightarrow> 'a list" where
  "stableInsert cmp x [] = [x]"
| "stableInsert cmp x (y # ys) =
     (if cmp x y \<le> 0 then x # y # ys else y # stableInsert cmp x ys)"

definition stableSort :: "('a \<Rightarrow> 'a \<Rightarrow> int) \<Rightarrow> 'a list \<Rightarrow> 'a list" where
  "stableSort cmp xs = foldr (stableInsert cmp) xs []"

text \<open>
  When every date is valid, the comparator above is a consistent ordering (the order of
  the dates). When some date is invalid, it need not be, and the order the events come out
  in is the implementation's: what the engine's sort returns, which the model takes from
  the environment and of which it assumes nothing.
\<close>

definition sortByDate :: "env \<Rightarrow> jsval list \<Rightarrow> jsval list" where
  "sortByDate E evs =
     (if list_all (validDate E) evs then stableSort (compareDates E) evs
      else engineSort E (compareDates E) evs)"

section \<open>State\<close>

record js_error =
  time :: int
  message :: string
  url :: "string option"

datatype js_exn = TypeError string

fun exn_message :: "js_exn \<Rightarrow> string" where
  "exn_message (TypeError m) = m"

text \<open>
  One snapshot (\<^verbatim>\<open>eventOdds\<close>). A property that was never assigned reads
  \<^verbatim>\<open>undefined\<close>; \<open>urls\<close> is \<open>None\<close> until the football merge assigns it. The type of
  a bookmaker's entry is a parameter: the rate-limited service stores the provider's
  value as it came, the OpticOdds service builds its own markets table.
\<close>

record 'b eventOdds =
  bookmakers :: "(string \<times> 'b) list"
  cachedAt :: int
  urls :: "(string \<times> jsval) list option"
  home :: jsval
  away :: jsval
  date :: jsval

text \<open>The fields both versions of \<^verbatim>\<open>OddsCache\<close> have, and the fields each adds.\<close>

record 'b store =
  nbaEvents :: "jsval list"
  nbaOdds :: "(string \<times> 'b eventOdds) list"
  footballEvents :: "(string \<times> jsval list) list"
  footballOdds :: "(string \<times> 'b eventOdds) list"
  lastNbaEventsUpdate :: "int option"
  lastNbaOddsUpdate :: "int option"
  lastFootballEventsUpdate :: "(string \<times> int) list"
  lastFootballOddsUpdate :: "int option"
  isRefreshing :: bool
  lastError :: "js_error option"

record cache = "jsval store" +
  apiCallsThisHour :: int
  hourStartTime :: int

text \<open>
  The world outside the object: the clock (\<^verbatim>\<open>Date.now()\<close>, in milliseconds), the URLs
  requested upstream so far (oldest first), and a history of the calls of a
  \<^verbatim>\<open>fetch...OddsForEvent\<close> method, each with the sport of the method and the event id
  it was entered with (oldest first; a history variable, nothing reads it). Time passes only while the code awaits: a request takes the time the
  provider says, \<^verbatim>\<open>sleep(ms)\<close> takes \<open>ms\<close>.
\<close>

datatype sport = Nba | Football

record world =
  clock :: int
  calls :: "string list"
  oddsFetches :: "(sport \<times> jsval) list"

type_synonym st = "cache \<times> world"

definition sleep :: "int \<Rightarrow> 'c \<times> world \<Rightarrow> 'c \<times> world" where
  "sleep ms s = (fst s, (snd s)\<lparr>clock := clock (snd s) + ms\<rparr>)"

text \<open>
  The assignment \<^verbatim>\<open>this.nbaOdds[eventId] = eventOdds\<close> (and its football twin) on the
  entries the object holds. For the key \<^verbatim>\<open>__proto__\<close> the assignment stores no entry: it
  makes the snapshot the object's prototype, from which reads of absent keys then inherit.
  Inherited reads are not modelled, and what is stated below of the entries read after a
  fetch leaves out an event id with this key.
\<close>

definition storeEntry :: "string \<Rightarrow> 'v \<Rightarrow> (string \<times> 'v) list \<Rightarrow> (string \<times> 'v) list" where
  "storeEntry k v kvs = (if k = ''__proto__'' then kvs else AList.update k v kvs)"

definition emptyOdds :: "int \<Rightarrow> 'b eventOdds" where
  "emptyOdds now =
     \<lparr>bookmakers = [], cachedAt = now, urls = None,
      home = JUndefined, away = JUndefined, date = JUndefined\<rparr>"

section \<open>The rate-limited service (services/oddsCache.js, odds-api.io)\<close>

definition NBA_BOOKMAKERS :: "string list" where
  "NBA_BOOKMAKERS =
     [''Kambi'', ''Bet365'', ''DraftKings'', ''Pinnacle'', ''BetMGM'', ''Caesars'',
      ''PrizePicks'', ''FanDuel'', ''BetOnline.ag'', ''BetPARX'', ''BetRivers'', ''Bovada'',
      ''Fanatics'', ''Fliff'', ''Superbet'', ''Underdog'', ''Bally Bet'']"

definition FOOTBALL_BOOKMAKERS :: "string list" where
  "FOOTBALL_BOOKMAKERS =
     [''Pinnacle'', ''Bet365'', ''Kambi'', ''DraftKings'', ''FanDuel'', ''BetMGM'',
      ''Caesars'', ''BetOnline.ag'', ''BetRivers'', ''Bovada'', ''Fanatics'', ''Superbet'',
      ''Bally Bet'']"

definition FOOTBALL_LEAGUES :: "string list" where
  "FOOTBALL_LEAGUES =
     [''england-premier-league'', ''england-championship'', ''england-fa-cup'',
      ''spain-laliga'', ''spain-laliga-2'', ''germany-bundesliga'',
      ''germany-2-bundesliga'', ''italy-serie-a'', ''italy-serie-b'', ''france-ligue-1'',
      ''france-ligue-2'', ''netherlands-eredivisie'', ''portugal-liga-portugal'',
      ''belgium-pro-league'', ''scotland-premiership'', ''denmark-superliga'',
      ''austria-bundesliga'', ''greece-super-league'',
      ''international-clubs-uefa-champions-league'',
      ''international-clubs-uefa-europa-league'',
      ''international-clubs-uefa-conference-league'', ''saudi-arabia-saudi-pro-league'',
      ''brazil-brasileiro-serie-a'', ''argentina-liga-profesional'']"

definition new_cache :: "int \<Rightarrow> cache" where
  "new_cache now =
     \<lparr>nbaEvents = [], nbaOdds = [], footballEvents = [], footballOdds = [],
      lastNbaEventsUpdate = None, lastNbaOddsUpdate = None,
      lastFootballEventsUpdate = [], lastFootballOddsUpdate = None,
      isRefreshing = False, lastError = None,
      apiCallsThisHour = 0, hourStartTime = now\<rparr>"

definition hourMs :: int where
  "hourMs = 60 * 60 * 1000"

fun checkRateLimit :: "env \<Rightarrow> st \<Rightarrow> bool \<times> st" where
  "checkRateLimit E (c, w) =
     (let now = clock w;
          c1 = (if now - hourStartTime c \<ge> hourMs
                then c\<lparr>apiCallsThisHour := 0, hourStartTime := now\<rparr> else c)
      in (apiCallsThisHour c1 < MAX_CALLS_PER_HOUR E, (c1, w)))"

fun getRemainingCalls :: "env \<Rightarrow> st \<Rightarrow> int \<times> st" where
  "getRemainingCalls E s =
     (case checkRateLimit E s of
        (ok, (c, w)) \<Rightarrow> (MAX_CALLS_PER_HOUR E - apiCallsThisHour c, (c, w)))"

text \<open>
  \<^verbatim>\<open>fetchWithRateLimit(url, description)\<close>; the description is only logged. The result
  \<open>JNull\<close> is the method's \<^verbatim>\<open>return null\<close>.
\<close>

fun fetchWithRateLimit :: "env \<Rightarrow> string \<Rightarrow> st \<Rightarrow> jsval \<times> st" where
  "fetchWithRateLimit E u s =
     (case checkRateLimit E s of
        (ok, (c1, w1)) \<Rightarrow>
          if \<not> ok then (JNull, (c1, w1))
          else
            (let c2 = c1\<lparr>apiCallsThisHour := apiCallsThisHour c1 + 1\<rparr>;
                 r = upstream E (length (calls w1)) u;
                 w2 = w1\<lparr>clock := clock w1 + int (fst r), calls := calls w1 @ [u]\<rparr>
             in (case fetchOutcome (snd r) of
                   Inr data \<Rightarrow> (data, (c2, w2))
                 | Inl m \<Rightarrow>
                     (JNull,
                      (c2\<lparr>lastError := Some \<lparr>time = clock w2, message = m, url = Some u\<rparr>\<rparr>,
                       w2)))))"

definition weekMs :: int where
  "weekMs = 7 * 24 * 60 * 60 * 1000"

definition threeDaysMs :: int where
  "threeDaysMs = 3 * 24 * 60 * 60 * 1000"

definition nbaEventsUrl :: "env \<Rightarrow> int \<Rightarrow> string" where
  "nbaEventsUrl E now =
     ODDS_API_BASE E @ ''/events?apiKey='' @ ODDS_API_KEY E
       @ ''&sport=basketball&league=usa-nba&status=pending&to='' @ toISOString E (now + weekMs)"

fun fetchNbaEvents :: "env \<Rightarrow> st \<Rightarrow> jsval list \<times> st" where
  "fetchNbaEvents E (c, w) =
     (case fetchWithRateLimit E (nbaEventsUrl E (clock w)) (c, w) of
        (data, (c1, w1)) \<Rightarrow>
          (let c2 = (if truthy data \<and> isArray data
                     then c1\<lparr>nbaEvents := elems data, lastNbaEventsUpdate := Some (clock w1)\<rparr>
                     else c1)
           in (nbaEvents c2, (c2, w1))))"

definition oddsUrl :: "env \<Rightarrow> jsval \<Rightarrow> string \<Rightarrow> string" where
  "oddsUrl E eventId bookmaker =
     ODDS_API_BASE E @ ''/odds?apiKey='' @ ODDS_API_KEY E
       @ ''&eventId='' @ toString eventId @ ''&bookmakers='' @ bookmaker"

text \<open>The body of the bookmaker loop after the request: the merge of one result.\<close>

definition mergeNbaBookmaker :: "string \<Rightarrow> jsval \<Rightarrow> jsval eventOdds \<Rightarrow> jsval eventOdds" where
  "mergeNbaBookmaker bookmaker data eo =
     (if truthy data \<and> truthy (getProp data ''bookmakers'')
         \<and> truthy (getProp (getProp data ''bookmakers'') bookmaker)
      then eo\<lparr>bookmakers :=
                 AList.update bookmaker (getProp (getProp data ''bookmakers'') bookmaker)
                   (bookmakers eo),
               home := getProp data ''home'',
               away := getProp data ''away'',
               date := getProp data ''date''\<rparr>
      else eo)"

definition mergeFootballBookmaker ::
    "string \<Rightarrow> jsval \<Rightarrow> jsval eventOdds \<Rightarrow> jsval eventOdds" where
  "mergeFootballBookmaker bookmaker data eo =
     (if truthy data \<and> truthy (getProp data ''bookmakers'')
         \<and> truthy (getProp (getProp data ''bookmakers'') bookmaker)
      then eo\<lparr>bookmakers :=
                 AList.update bookmaker (getProp (getProp data ''bookmakers'') bookmaker)
                   (bookmakers eo),
               urls :=
                 Some (foldl (\<lambda>acc kv. AList.update (fst kv) (snd kv) acc)
                         (case urls eo of None \<Rightarrow> [] | Some old \<Rightarrow> old)
                         (spread (getProp data ''urls''))),
               home := getProp data ''home'',
               away := getProp data ''away'',
               date := getProp data ''date''\<rparr>
      else eo)"

text \<open>
  The loop \<^verbatim>\<open>for (const bookmaker of ...)\<close> of \<^verbatim>\<open>fetchNbaOddsForEvent\<close> and of
  \<^verbatim>\<open>fetchFootballOddsForEvent\<close>, which differ in the merge only.
\<close>

fun bookmakerLoop ::
    "(string \<Rightarrow> jsval \<Rightarrow> jsval eventOdds \<Rightarrow> jsval eventOdds) \<Rightarrow> env \<Rightarrow> jsval \<Rightarrow> string list
      \<Rightarrow> jsval eventOdds \<Rightarrow> st \<Rightarrow> jsval eventOdds \<times> st" where
  "bookmakerLoop merge E eventId [] eo s = (eo, s)"
| "bookmakerLoop merge E eventId (bookmaker # rest) eo s =
     (case checkRateLimit E s of
        (ok, s1) \<Rightarrow>
          if \<not> ok then (eo, s1)
          else
            (case fetchWithRateLimit E (oddsUrl E eventId bookmaker) s1 of
               (data, s2) \<Rightarrow>
                 bookmakerLoop merge E eventId rest (merge bookmaker data eo) (sleep 50 s2)))"

fun fetchNbaOddsForEvent :: "env \<Rightarrow> jsval \<Rightarrow> st \<Rightarrow> jsval eventOdds \<times> st" where
  "fetchNbaOddsForEvent E eventId (c, w) =
     (case bookmakerLoop mergeNbaBookmaker E eventId NBA_BOOKMAKERS (emptyOdds (clock w))
             (c, w\<lparr>oddsFetches := oddsFetches w @ [(Nba, eventId)]\<rparr>) of
        (eo, (c1, w1)) \<Rightarrow>
          (eo, (c1\<lparr>nbaOdds := storeEntry (toString eventId) eo (nbaOdds c1)\<rparr>, w1)))"

fun fetchFootballOddsForEvent ::
    "env \<Rightarrow> jsval \<Rightarrow> string list \<Rightarrow> st \<Rightarrow> jsval eventOdds \<times> st" where
  "fetchFootballOddsForEvent E eventId bms (c, w) =
     (case bookmakerLoop mergeFootballBookmaker E eventId bms (emptyOdds (clock w))
             (c, w\<lparr>oddsFetches := oddsFetches w @ [(Football, eventId)]\<rparr>) of
        (eo, (c1, w1)) \<Rightarrow>
          (eo, (c1\<lparr>footballOdds := storeEntry (toString eventId) eo (footballOdds c1)\<rparr>, w1)))"

text \<open>
  \<^verbatim>\<open>sortedEvents.filter(e => new Date(e.date) <= threeDaysFromNow)\<close> after the sort; a
  comparison with \<^verbatim>\<open>NaN\<close> is false.
\<close>

definition withinHorizon :: "env \<Rightarrow> int \<Rightarrow> jsval \<Rightarrow> bool" where
  "withinHorizon E horizon e =
     (case newDate E (getProp e ''date'') of Some t \<Rightarrow> t \<le> horizon | None \<Rightarrow> False)"

definition upcomingEvents :: "env \<Rightarrow> int \<Rightarrow> jsval list \<Rightarrow> jsval list" where
  "upcomingEvents E horizon evs = filter (withinHorizon E horizon) (sortByDate E evs)"

text \<open>
  The loop \<^verbatim>\<open>for (const event of upcomingEvents)\<close> of \<^verbatim>\<open>refreshNbaOdds\<close> and of
  \<^verbatim>\<open>refreshFootballOdds\<close>, which differ in the method called only.
\<close>

fun oddsRefreshLoop ::
    "(env \<Rightarrow> jsval \<Rightarrow> st \<Rightarrow> jsval eventOdds \<times> st) \<Rightarrow> env \<Rightarrow> jsval list \<Rightarrow> st \<Rightarrow> st" where
  "oddsRefreshLoop fetchOne E [] s = s"
| "oddsRefreshLoop fetchOne E (event # rest) s =
     (case checkRateLimit E s of
        (ok, s1) \<Rightarrow>
          if \<not> ok then s1
          else oddsRefreshLoop fetchOne E rest
                 (sleep 100 (snd (fetchOne E (getProp event ''id'') s1))))"

text \<open>
  Reading a property of an element that is \<^verbatim>\<open>null\<close> throws a TypeError. In
  \<^verbatim>\<open>refreshNbaOdds\<close> the read of \<^verbatim>\<open>.date\<close> happens in the comparator or, for a list of
  one element, in the filter: in both cases before the loop. (An array parsed from JSON
  holds no \<^verbatim>\<open>undefined\<close>; the model treats it as \<^verbatim>\<open>null\<close>.)
\<close>

definition readPropError :: "string \<Rightarrow> jsval list \<Rightarrow> js_exn option" where
  "readPropError k evs =
     (case find nullish evs of
        None \<Rightarrow> None
      | Some e \<Rightarrow>
          Some (TypeError
            (''Cannot read properties of '' @ toString e @ '' (reading '' @ [CHR 0x27] @ k
               @ [CHR 0x27] @ '')'')))"

text \<open>The first statement of \<^verbatim>\<open>refreshNbaOdds\<close>: events are fetched when none is stored.\<close>

definition ensureNbaEvents :: "env \<Rightarrow> st \<Rightarrow> st" where
  "ensureNbaEvents E s = (if nbaEvents (fst s) = [] then snd (fetchNbaEvents E s) else s)"

fun refreshNbaOdds :: "env \<Rightarrow> st \<Rightarrow> (js_exn + unit) \<times> st" where
  "refreshNbaOdds E s =
     (let s1 = ensureNbaEvents E s
      in (case readPropError ''date'' (nbaEvents (fst s1)) of
            Some err \<Rightarrow> (Inl err, s1)
          | None \<Rightarrow>
              (case oddsRefreshLoop fetchNbaOddsForEvent E
                      (upcomingEvents E (clock (snd s1) + threeDaysMs) (nbaEvents (fst s1))) s1 of
                 (c2, w2) \<Rightarrow> (Inr (), (c2\<lparr>lastNbaOddsUpdate := Some (clock w2)\<rparr>, w2)))))"

definition footballEventsUrl :: "env \<Rightarrow> string \<Rightarrow> int \<Rightarrow> string" where
  "footballEventsUrl E leagueSlug now =
     ODDS_API_BASE E @ ''/events?apiKey='' @ ODDS_API_KEY E
       @ ''&sport=football&league='' @ leagueSlug @ ''&status=pending&to=''
       @ toISOString E (now + weekMs)"

definition eventsOf :: "(string \<times> jsval list) list \<Rightarrow> string \<Rightarrow> jsval list" where
  "eventsOf fe leagueSlug = (case map_of fe leagueSlug of Some evs \<Rightarrow> evs | None \<Rightarrow> [])"

fun fetchFootballEvents :: "env \<Rightarrow> string \<Rightarrow> st \<Rightarrow> jsval list \<times> st" where
  "fetchFootballEvents E leagueSlug (c, w) =
     (case fetchWithRateLimit E (footballEventsUrl E leagueSlug (clock w)) (c, w) of
        (data, (c1, w1)) \<Rightarrow>
          (let c2 = (if truthy data \<and> isArray data
                     then c1\<lparr>footballEvents :=
                               AList.update leagueSlug (elems data) (footballEvents c1),
                             lastFootballEventsUpdate :=
                               AList.update leagueSlug (clock w1) (lastFootballEventsUpdate c1)\<rparr>
                     else c1)
           in (eventsOf (footballEvents c2) leagueSlug, (c2, w1))))"

fun leaguesLoop :: "env \<Rightarrow> string list \<Rightarrow> st \<Rightarrow> st" where
  "leaguesLoop E [] s = s"
| "leaguesLoop E (league # rest) s =
     (case checkRateLimit E s of
        (ok, s1) \<Rightarrow>
          if \<not> ok then s1
          else leaguesLoop E rest (sleep 100 (snd (fetchFootballEvents E league s1))))"

text \<open>\<^verbatim>\<open>allEvents.push(...events.map(e => ({ ...e, league })))\<close> over the leagues.\<close>

definition collectEvents :: "string list \<Rightarrow> (string \<times> jsval list) list \<Rightarrow> jsval list" where
  "collectEvents leagues fe =
     concat (map (\<lambda>league.
        map (\<lambda>e. JObj (AList.update ''league'' (JStr league) (spread e))) (eventsOf fe league))
       leagues)"

fun refreshFootballOdds :: "env \<Rightarrow> st \<Rightarrow> st" where
  "refreshFootballOdds E s =
     (let s1 = leaguesLoop E FOOTBALL_LEAGUES s;
          allEvents = collectEvents FOOTBALL_LEAGUES (footballEvents (fst s1))
      in (case oddsRefreshLoop (\<lambda>E' eventId. fetchFootballOddsForEvent E' eventId FOOTBALL_BOOKMAKERS)
                 E (upcomingEvents E (clock (snd s1) + threeDaysMs) allEvents) s1 of
            (c2, w2) \<Rightarrow> (c2\<lparr>lastFootballOddsUpdate := Some (clock w2)\<rparr>, w2)))"

text \<open>The \<^verbatim>\<open>try\<close> block of \<^verbatim>\<open>refreshAll\<close>, then the method with its guard, catch and finally.\<close>

fun refreshAll_try :: "env \<Rightarrow> st \<Rightarrow> (js_exn + unit) \<times> st" where
  "refreshAll_try E s =
     (case refreshNbaOdds E (snd (fetchNbaEvents E s)) of
        (Inl err, s2) \<Rightarrow> (Inl err, s2)
      | (Inr u, s2) \<Rightarrow> (Inr (), refreshFootballOdds E s2))"

fun refreshAll :: "env \<Rightarrow> st \<Rightarrow> (js_exn + unit) \<times> st" where
  "refreshAll E (c, w) =
     (if isRefreshing c then (Inr (), (c, w))
      else
        (case refreshAll_try E (snd (getRemainingCalls E (c\<lparr>isRefreshing := True\<rparr>, w))) of
           (Inl err, (c1, w1)) \<Rightarrow>
             (Inr (),
              (c1\<lparr>lastError := Some \<lparr>time = clock w1, message = exn_message err, url = None\<rparr>,
                  isRefreshing := False\<rparr>,
               w1))
         | (Inr u, (c1, w1)) \<Rightarrow> (Inr (), (c1\<lparr>isRefreshing := False\<rparr>, w1))))"

declare checkRateLimit.simps [simp del]
declare getRemainingCalls.simps [simp del]
declare fetchWithRateLimit.simps [simp del]
declare fetchNbaEvents.simps [simp del]
declare fetchNbaOddsForEvent.simps [simp del]
declare fetchFootballOddsForEvent.simps [simp del]
declare refreshNbaOdds.simps [simp del]
declare fetchFootballEvents.simps [simp del]
declare refreshFootballOdds.simps [simp del]
declare refreshAll_try.simps [simp del]
declare refreshAll.simps [simp del]

section \<open>The OpticOdds service (services/oddsCache.js, no rate limit)\<close>

text \<open>
  The two copies of this file under src/ differ in the list of league slugs only; the
  list below is the one of src/server.js.
\<close>

record outcome =
  name :: jsval
  price :: jsval
  points :: jsval
  is_main :: jsval

text \<open>
  A bookmaker's entry \<^verbatim>\<open>{ markets: { market: [outcome, ...] } }\<close>, as the table of its
  markets.
\<close>

type_synonym markets = "(string \<times> outcome list) list"

record optic_cache = "markets store" +
  apiCallCount :: int

type_synonym ost = "optic_cache \<times> world"

definition OPTIC_API_BASE :: string where
  "OPTIC_API_BASE = ''https://api.opticodds.com/api/v3''"

definition NBA_BOOKMAKERS_optic :: "string list" where
  "NBA_BOOKMAKERS_optic =
     [''draftkings'', ''fanduel'', ''betmgm'', ''caesars'', ''pointsbet'', ''bet365'',
      ''pinnacle'', ''bovada'', ''betonline'', ''betrivers'', ''unibet'', ''wynnbet'',
      ''superbook'', ''barstool'', ''hard_rock'']"

definition FOOTBALL_BOOKMAKERS_optic :: "string list" where
  "FOOTBALL_BOOKMAKERS_optic =
     [''pinnacle'', ''bet365'', ''draftkings'', ''fanduel'', ''betmgm'', ''caesars'',
      ''betonline'', ''betrivers'', ''bovada'', ''unibet'', ''pointsbet'']"

definition FOOTBALL_LEAGUES_optic :: "string list" where
  "FOOTBALL_LEAGUES_optic =
     [''england_-_premier_league'', ''england_-_championship'', ''england_-_fa_cup'',
      ''england_-_efl_cup'', ''england_-_league_1'', ''england_-_league_2'',
      ''spain_-_la_liga'', ''spain_-_la_liga_2'', ''germany_-_bundesliga'',
      ''germany_-_bundesliga_2'', ''italy_-_serie_a'', ''italy_-_serie_b'',
      ''france_-_ligue_1'', ''france_-_ligue_2'', ''netherlands_-_eredivisie'',
      ''portugal_-_primeira_liga'', ''belgium_-_jupiler_pro_league'',
      ''scotland_-_premiership'', ''denmark_-_superliga'', ''austria_-_bundesliga'',
      ''greece_-_super_league'', ''uefa_-_champions_league'', ''uefa_-_europa_league'',
      ''uefa_-_conference_league'', ''saudi_arabia_-_pro_league'', ''brazil_-_serie_a'',
      ''argentina_-_primera_division'']"

definition new_optic_cache :: optic_cache where
  "new_optic_cache =
     \<lparr>nbaEvents = [], nbaOdds = [], footballEvents = [], footballOdds = [],
      lastNbaEventsUpdate = None, lastNbaOddsUpdate = None,
      lastFootballEventsUpdate = [], lastFootballOddsUpdate = None,
      isRefreshing = False, lastError = None,
      apiCallCount = 0\<rparr>"

text \<open>
  \<^verbatim>\<open>fetchApi(url, description)\<close>. The request headers are a function of the API key and
  the description is only logged.
\<close>

fun fetchApi :: "env \<Rightarrow> string \<Rightarrow> ost \<Rightarrow> jsval \<times> ost" where
  "fetchApi E u (c, w) =
     (if OPTIC_API_KEY E = []
      then (JNull,
            (c\<lparr>lastError :=
                 Some \<lparr>time = clock w, message = ''API key not configured'', url = None\<rparr>\<rparr>,
             w))
      else
        (let c2 = c\<lparr>apiCallCount := apiCallCount c + 1\<rparr>;
             r = upstream E (length (calls w)) u;
             w2 = w\<lparr>clock := clock w + int (fst r), calls := calls w @ [u]\<rparr>
         in (case fetchOutcome (snd r) of
               Inr data \<Rightarrow> (data, (c2, w2))
             | Inl m \<Rightarrow>
                 (JNull,
                  (c2\<lparr>lastError := Some \<lparr>time = clock w2, message = m, url = Some u\<rparr>\<rparr>,
                   w2)))))"

text \<open>The "consistent format" an event is transformed to.\<close>

definition transformEvent :: "string \<Rightarrow> jsval \<Rightarrow> jsval" where
  "transformEvent league event =
     JObj [(''id'', getProp event ''id''),
           (''home'', getProp event ''home_team''),
           (''away'', getProp event ''away_team''),
           (''date'', getProp event ''start_date''),
           (''league'', JStr league),
           (''status'', getProp event ''status'')]"

fun fetchNbaEvents_optic :: "env \<Rightarrow> ost \<Rightarrow> (js_exn + jsval list) \<times> ost" where
  "fetchNbaEvents_optic E s =
     (case fetchApi E (OPTIC_API_BASE @ ''/fixtures/active?league=nba'') s of
        (data, (c1, w1)) \<Rightarrow>
          if truthy data \<and> truthy (getProp data ''data'') \<and> isArray (getProp data ''data'')
          then
            (case readPropError ''id'' (elems (getProp data ''data'')) of
               Some err \<Rightarrow> (Inl err, (c1, w1))
             | None \<Rightarrow>
                 (let c2 = c1\<lparr>nbaEvents :=
                                map (transformEvent ''nba'') (elems (getProp data ''data'')),
                              lastNbaEventsUpdate := Some (clock w1)\<rparr>
                  in (Inr (nbaEvents c2), (c2, w1))))
          else (Inr (nbaEvents c1), (c1, w1)))"

definition oddsUrl_optic :: "jsval \<Rightarrow> string list \<Rightarrow> string" where
  "oddsUrl_optic eventId bms =
     OPTIC_API_BASE @ ''/fixtures/odds?fixture_id='' @ toString eventId
       @ ''&sportsbook='' @ joinWith '','' bms"

text \<open>
  The body of \<^verbatim>\<open>for (const odd of oddsData.odds)\<close>: the bookmaker's entry and the
  market's list are created when absent (both are objects, hence truthy when present),
  then the outcome is pushed.
\<close>

definition mergeOdd :: "jsval \<Rightarrow> markets eventOdds \<Rightarrow> markets eventOdds" where
  "mergeOdd od eo =
     (let book = toString (getProp od ''sportsbook'');
          ms = (case map_of (bookmakers eo) book of None \<Rightarrow> [] | Some m \<Rightarrow> m);
          market = toString (getProp od ''market'');
          outs = (case map_of ms market of None \<Rightarrow> [] | Some os \<Rightarrow> os);
          pushed = outs @ [\<lparr>name = getProp od ''name'', price = getProp od ''price'',
                            points = getProp od ''points'', is_main = getProp od ''is_main''\<rparr>]
      in eo\<lparr>bookmakers := AList.update book (AList.update market pushed ms) (bookmakers eo)\<rparr>)"

fun mergeOdds :: "jsval list \<Rightarrow> markets eventOdds \<Rightarrow> js_exn + markets eventOdds" where
  "mergeOdds [] eo = Inr eo"
| "mergeOdds (od # rest) eo =
     (case readPropError ''sportsbook'' [od] of
        Some err \<Rightarrow> Inl err
      | None \<Rightarrow> mergeOdds rest (mergeOdd od eo))"

text \<open>
  What \<^verbatim>\<open>fetchNbaOddsForEvent\<close> and \<^verbatim>\<open>fetchFootballOddsForEvent\<close> do with the data
  between the request and the store (the same lines in both).
\<close>

definition buildOdds :: "env \<Rightarrow> jsval \<Rightarrow> markets eventOdds \<Rightarrow> js_exn + markets eventOdds" where
  "buildOdds E data eo =
     (if truthy data \<and> truthy (getProp data ''data'')
         \<and> gtZero E (getProp (getProp data ''data'') ''length'')
      then
        (let oddsData = getProp (getProp data ''data'') ''0''
         in (case readPropError ''odds'' [oddsData] of
               Some err \<Rightarrow> Inl err
             | None \<Rightarrow>
                 (case (if truthy (getProp oddsData ''odds'')
                        then (case iterate (getProp oddsData ''odds'') of
                                None \<Rightarrow> Inl (TypeError ''oddsData.odds is not iterable'')
                              | Some odds \<Rightarrow> mergeOdds odds eo)
                        else Inr eo) of
                    Inl err \<Rightarrow> Inl err
                  | Inr eo1 \<Rightarrow>
                      Inr (eo1\<lparr>home := getProp oddsData ''home_team'',
                               away := getProp oddsData ''away_team'',
                               date := getProp oddsData ''start_date''\<rparr>))))
      else Inr eo)"

fun fetchNbaOddsForEvent_optic ::
    "env \<Rightarrow> jsval \<Rightarrow> ost \<Rightarrow> (js_exn + markets eventOdds) \<times> ost" where
  "fetchNbaOddsForEvent_optic E eventId (c, w) =
     (case fetchApi E (oddsUrl_optic eventId NBA_BOOKMAKERS_optic)
             (c, w\<lparr>oddsFetches := oddsFetches w @ [(Nba, eventId)]\<rparr>) of
        (data, (c1, w1)) \<Rightarrow>
          (case buildOdds E data (emptyOdds (clock w)) of
             Inl err \<Rightarrow> (Inl err, (c1, w1))
           | Inr eo \<Rightarrow>
               (Inr eo,
                (c1\<lparr>nbaOdds := storeEntry (toString eventId) eo (nbaOdds c1)\<rparr>, w1))))"

fun fetchFootballOddsForEvent_optic ::
    "env \<Rightarrow> jsval \<Rightarrow> string list \<Rightarrow> ost \<Rightarrow> (js_exn + markets eventOdds) \<times> ost" where
  "fetchFootballOddsForEvent_optic E eventId bms (c, w) =
     (case fetchApi E (oddsUrl_optic eventId bms)
             (c, w\<lparr>oddsFetches := oddsFetches w @ [(Football, eventId)]\<rparr>) of
        (data, (c1, w1)) \<Rightarrow>
          (case buildOdds E data (emptyOdds (clock w)) of
             Inl err \<Rightarrow> (Inl err, (c1, w1))
           | Inr eo \<Rightarrow>
               (Inr eo,
                (c1\<lparr>footballOdds := storeEntry (toString eventId) eo (footballOdds c1)\<rparr>,
                 w1))))"

text \<open>
  The loop \<^verbatim>\<open>for (const event of sortedEvents)\<close> of \<^verbatim>\<open>refreshNbaOdds\<close> and of
  \<^verbatim>\<open>refreshFootballOdds\<close>: no budget test, and an error of the method called leaves the
  loop.
\<close>

fun oddsRefreshLoop_optic ::
    "(env \<Rightarrow> jsval \<Rightarrow> ost \<Rightarrow> (js_exn + markets eventOdds) \<times> ost) \<Rightarrow> env \<Rightarrow> jsval list \<Rightarrow> ost
      \<Rightarrow> (js_exn + unit) \<times> ost" where
  "oddsRefreshLoop_optic fetchOne E [] s = (Inr (), s)"
| "oddsRefreshLoop_optic fetchOne E (event # rest) s =
     (case readPropError ''id'' [event] of
        Some err \<Rightarrow> (Inl err, s)
      | None \<Rightarrow>
          (case fetchOne E (getProp event ''id'') s of
             (Inl err, s1) \<Rightarrow> (Inl err, s1)
           | (Inr eo, s1) \<Rightarrow> oddsRefreshLoop_optic fetchOne E rest (sleep 50 s1)))"

text \<open>
  The comparator runs only on a list of two elements or more; there it reads
  \<^verbatim>\<open>.date\<close> of every element.
\<close>

definition sortError :: "jsval list \<Rightarrow> js_exn option" where
  "sortError evs = (if 2 \<le> length evs then readPropError ''date'' evs else None)"

text \<open>The first statement of \<^verbatim>\<open>refreshNbaOdds\<close>: events are fetched when none is stored.\<close>

definition ensureNbaEvents_optic :: "env \<Rightarrow> ost \<Rightarrow> (js_exn + unit) \<times> ost" where
  "ensureNbaEvents_optic E s =
     (if nbaEvents (fst s) = []
      then (case fetchNbaEvents_optic E s of
              (Inl err, s1) \<Rightarrow> (Inl err, s1)
            | (Inr evs, s1) \<Rightarrow> (Inr (), s1))
      else (Inr (), s))"

fun refreshNbaOdds_optic :: "env \<Rightarrow> ost \<Rightarrow> (js_exn + unit) \<times> ost" where
  "refreshNbaOdds_optic E s =
     (case ensureNbaEvents_optic E s of
        (Inl err, s1) \<Rightarrow> (Inl err, s1)
      | (Inr u0, s1) \<Rightarrow>
          (case sortError (nbaEvents (fst s1)) of
             Some err \<Rightarrow> (Inl err, s1)
           | None \<Rightarrow>
               (case oddsRefreshLoop_optic fetchNbaOddsForEvent_optic E
                       (sortByDate E (nbaEvents (fst s1))) s1 of
                  (Inl err, s2) \<Rightarrow> (Inl err, s2)
                | (Inr u, (c2, w2)) \<Rightarrow>
                    (Inr (), (c2\<lparr>lastNbaOddsUpdate := Some (clock w2)\<rparr>, w2)))))"

definition footballEventsUrl_optic :: "string \<Rightarrow> string" where
  "footballEventsUrl_optic leagueSlug =
     OPTIC_API_BASE @ ''/fixtures?sport=soccer&league='' @ leagueSlug @ ''&status=unplayed''"

fun fetchFootballEvents_optic ::
    "env \<Rightarrow> string \<Rightarrow> ost \<Rightarrow> (js_exn + jsval list) \<times> ost" where
  "fetchFootballEvents_optic E leagueSlug s =
     (case fetchApi E (footballEventsUrl_optic leagueSlug) s of
        (data, (c1, w1)) \<Rightarrow>
          if truthy data \<and> truthy (getProp data ''data'') \<and> isArray (getProp data ''data'')
          then
            (case readPropError ''id'' (elems (getProp data ''data'')) of
               Some err \<Rightarrow> (Inl err, (c1, w1))
             | None \<Rightarrow>
                 (let c2 = c1\<lparr>footballEvents :=
                                AList.update leagueSlug
                                  (map (transformEvent leagueSlug) (elems (getProp data ''data'')))
                                  (footballEvents c1),
                              lastFootballEventsUpdate :=
                                AList.update leagueSlug (clock w1) (lastFootballEventsUpdate c1)\<rparr>
                  in (Inr (eventsOf (footballEvents c2) leagueSlug), (c2, w1))))
          else (Inr (eventsOf (footballEvents c1) leagueSlug), (c1, w1)))"

fun leaguesLoop_optic :: "env \<Rightarrow> string list \<Rightarrow> ost \<Rightarrow> (js_exn + unit) \<times> ost" where
  "leaguesLoop_optic E [] s = (Inr (), s)"
| "leaguesLoop_optic E (league # rest) s =
     (case fetchFootballEvents_optic E league s of
        (Inl err, s1) \<Rightarrow> (Inl err, s1)
      | (Inr evs, s1) \<Rightarrow> leaguesLoop_optic E rest (sleep 50 s1))"

fun refreshFootballOdds_optic :: "env \<Rightarrow> ost \<Rightarrow> (js_exn + unit) \<times> ost" where
  "refreshFootballOdds_optic E s =
     (case leaguesLoop_optic E FOOTBALL_LEAGUES_optic s of
        (Inl err, s1) \<Rightarrow> (Inl err, s1)
      | (Inr u, s1) \<Rightarrow>
          (case oddsRefreshLoop_optic
                  (\<lambda>E' eventId. fetchFootballOddsForEvent_optic E' eventId FOOTBALL_BOOKMAKERS_optic)
                  E (sortByDate E
                       (collectEvents FOOTBALL_LEAGUES_optic (footballEvents (fst s1)))) s1 of
             (Inl err, s2) \<Rightarrow> (Inl err, s2)
           | (Inr u', (c2, w2)) \<Rightarrow>
               (Inr (), (c2\<lparr>lastFootballOddsUpdate := Some (clock w2)\<rparr>, w2))))"

fun refreshAll_try_optic :: "env \<Rightarrow> ost \<Rightarrow> (js_exn + unit) \<times> ost" where
  "refreshAll_try_optic E s =
     (case fetchNbaEvents_optic E s of
        (Inl err, s1) \<Rightarrow> (Inl err, s1)
      | (Inr evs, s1) \<Rightarrow>
          (case refreshNbaOdds_optic E s1 of
             (Inl err, s2) \<Rightarrow> (Inl err, s2)
           | (Inr u, s2) \<Rightarrow> refreshFootballOdds_optic E s2))"

fun refreshAll_optic :: "env \<Rightarrow> ost \<Rightarrow> (js_exn + unit) \<times> ost" where
  "refreshAll_optic E (c, w) =
     (if isRefreshing c then (Inr (), (c, w))
      else
        (case refreshAll_try_optic E (c\<lparr>isRefreshing := True\<rparr>, w) of
           (Inl err, (c1, w1)) \<Rightarrow>
             (Inr (),
              (c1\<lparr>lastError := Some \<lparr>time = clock w1, message = exn_message err, url = None\<rparr>,
                  isRefreshing := False\<rparr>,
               w1))
         | (Inr u, (c1, w1)) \<Rightarrow> (Inr (), (c1\<lparr>isRefreshing := False\<rparr>, w1))))"

declare fetchApi.simps [simp del]
declare fetchNbaEvents_optic.simps [simp del]
declare fetchNbaOddsForEvent_optic.simps [simp del]
declare fetchFootballOddsForEvent_optic.simps [simp del]
declare refreshNbaOdds_optic.simps [simp del]
declare fetchFootballEvents_optic.simps [simp del]
declare refreshFootballOdds_optic.simps [simp del]
declare refreshAll_try_optic.simps [simp del]
declare refreshAll_optic.simps [simp del]

section \<open>Sequences of calls on the rate-limited service\<close>

text \<open>
  The methods of the rate-limited service that can reach the provider or the counter, as
  a caller (the scheduler, a route handler) may invoke them one after the other, with time
  passing in between.
\<close>

datatype api_call =
    CallFetchNbaEvents
  | CallFetchNbaOddsForEvent jsval
  | CallRefreshNbaOdds
  | CallFetchFootballEvents string
  | CallFetchFootballOddsForEvent jsval "string list"
  | CallRefreshFootballOdds
  | CallRefreshAll
  | CallGetRemainingCalls
  | Elapse nat

fun perform :: "env \<Rightarrow> api_call \<Rightarrow> st \<Rightarrow> st" where
  "perform E CallFetchNbaEvents s = snd (fetchNbaEvents E s)"
| "perform E (CallFetchNbaOddsForEvent eventId) s = snd (fetchNbaOddsForEvent E eventId s)"
| "perform E CallRefreshNbaOdds s = snd (refreshNbaOdds E s)"
| "perform E (CallFetchFootballEvents leagueSlug) s = snd (fetchFootballEvents E leagueSlug s)"
| "perform E (CallFetchFootballOddsForEvent eventId bms) s =
     snd (fetchFootballOddsForEvent E eventId bms s)"
| "perform E CallRefreshFootballOdds s = refreshFootballOdds E s"
| "perform E CallRefreshAll s = snd (refreshAll E s)"
| "perform E CallGetRemainingCalls s = snd (getRemainingCalls E s)"
| "perform E (Elapse ms) s = sleep (int ms) s"

fun performAll :: "env \<Rightarrow> api_call list \<Rightarrow> st \<Rightarrow> st" where
  "performAll E [] s = s"
| "performAll E (a # rest) s = performAll E rest (perform E a s)"

section \<open>Measures and sample inputs\<close>

text \<open>\<^verbatim>\<open>Object.keys(o).length\<close> of an object held as an association list.\<close>

definition numKeys :: "(string \<times> 'v) list \<Rightarrow> nat" where
  "numKeys kvs = length (remdups (map fst kvs))"

definition withinBudget :: "env \<Rightarrow> st \<Rightarrow> bool" where
  "withinBudget E s = (apiCallsThisHour (fst s) \<le> MAX_CALLS_PER_HOUR E)"

text \<open>
  The budget is exhausted in a state: the counter has reached the limit and the window has
  not elapsed. The argument \<^verbatim>\<open>event.id\<close> with which the refresh loops call
  \<^verbatim>\<open>fetch...OddsForEvent\<close>.
\<close>

definition budgetExhausted :: "env \<Rightarrow> st \<Rightarrow> bool" where
  "budgetExhausted E s =
     (MAX_CALLS_PER_HOUR E \<le> apiCallsThisHour (fst s)
      \<and> clock (snd s) - hourStartTime (fst s) < hourMs)"

definition idOf :: "jsval \<Rightarrow> jsval" where
  "idOf e = getProp e ''id''"

text \<open>
  Between a state and a later one, the odds entries changed only by calls of
  \<^verbatim>\<open>fetch...OddsForEvent\<close>: the history of those calls was only extended, and the entry
  of a table under a key is what it was unless a call of that table's method was entered
  in between with an event id of that key (or of the key \<^verbatim>\<open>__proto__\<close>, after which
  reads of absent keys inherit).
\<close>

definition fetchedKeys :: "sport \<Rightarrow> (sport \<times> jsval) list \<Rightarrow> string set" where
  "fetchedKeys sp xs = (\<lambda>x. toString (snd x)) ` {x \<in> set xs. fst x = sp}"

definition oddsOnlyByFetch ::
    "('b, 'z) store_scheme \<times> world \<Rightarrow> ('b, 'z) store_scheme \<times> world \<Rightarrow> bool" where
  "oddsOnlyByFetch s s' =
     (\<exists>new. oddsFetches (snd s') = oddsFetches (snd s) @ new
        \<and> (\<forall>k. k \<notin> fetchedKeys Nba new \<and> ''__proto__'' \<notin> fetchedKeys Nba new \<longrightarrow>
               map_of (nbaOdds (fst s')) k = map_of (nbaOdds (fst s)) k)
        \<and> (\<forall>k. k \<notin> fetchedKeys Football new \<and> ''__proto__'' \<notin> fetchedKeys Football new \<longrightarrow>
               map_of (footballOdds (fst s')) k = map_of (footballOdds (fst s)) k))"

text \<open>
  A configuration with a limit of 5 calls per hour, in which a date is a number of
  milliseconds, and a world whose clock stands at one second.
\<close>

definition sampleEnv :: "(nat \<Rightarrow> string \<Rightarrow> nat \<times> reply) \<Rightarrow> env" where
  "sampleEnv up =
     \<lparr>ODDS_API_KEY = ''key'', ODDS_API_BASE = ''https://odds'', MAX_CALLS_PER_HOUR = 5,
      OPTIC_API_KEY = ''key'', toISOString = showInt, DateParse = (\<lambda>s. None),
      StringToNumber = (\<lambda>s. None), engineSort = (\<lambda>cmp xs. xs), upstream = up\<rparr>"

definition world0 :: world where
  "world0 = \<lparr>clock = 1000, calls = [], oddsFetches = []\<rparr>"

definition alwaysDown :: "nat \<Rightarrow> string \<Rightarrow> nat \<times> reply" where
  "alwaysDown n u = (10, Rejected ''connect ECONNREFUSED'')"

definition alwaysJson :: "jsval \<Rightarrow> nat \<Rightarrow> string \<Rightarrow> nat \<times> reply" where
  "alwaysJson d n u = (10, Response 200 ''OK'' (Json d))"

text \<open>
  The reply of the provider to a request made in world \<open>w\<close>, and the relation between a
  cache and a later one that differs from it in the call counter, the window start and the
  last error at most.
\<close>

definition replyTo :: "env \<Rightarrow> world \<Rightarrow> string \<Rightarrow> reply" where
  "replyTo E w u = snd (upstream E (length (calls w)) u)"

definition sameStore :: "cache \<Rightarrow> cache \<Rightarrow> bool" where
  "sameStore c c' =
     (c' = c\<lparr>apiCallsThisHour := apiCallsThisHour c', hourStartTime := hourStartTime c',
              lastError := lastError c'\<rparr>)"

text \<open>Caches that hold one NBA event already.\<close>

definition sampleEvent :: "string \<Rightarrow> int \<Rightarrow> jsval" where
  "sampleEvent i t = JObj [(''id'', JStr i), (''date'', JNum t)]"

definition cacheWithEvent :: cache where
  "cacheWithEvent = (new_cache 0)\<lparr>nbaEvents := [sampleEvent ''E1'' 2000]\<rparr>"

definition opticWithEvent :: optic_cache where
  "opticWithEvent = new_optic_cache\<lparr>nbaEvents := [sampleEvent ''E1'' 2000]\<rparr>"

text \<open>A cache that holds a snapshot with one bookmaker for the event \<open>E1\<close>.\<close>

definition cacheWithOdds :: cache where
  "cacheWithOdds =
     (new_cache 0)\<lparr>nbaOdds := [(''E1'', (emptyOdds 500)\<lparr>bookmakers := [(''Kambi'', JObj [])]\<rparr>)]\<rparr>"

text \<open>
  An OpticOdds cache whose one event starts thirty days after the sample clock, and a
  rate-limited cache with three events, out of date order, the last of which starts four
  days after the sample clock.
\<close>

definition opticFarEvent :: optic_cache where
  "opticFarEvent = new_optic_cache\<lparr>nbaEvents := [sampleEvent ''E9'' 2592001000]\<rparr>"

definition cacheThreeEvents :: cache where
  "cacheThreeEvents =
     (new_cache 0)\<lparr>nbaEvents :=
        [sampleEvent ''E2'' 5000, sampleEvent ''E1'' 2000, sampleEvent ''E3'' 345601000]\<rparr>"

section \<open>The rate limit test\<close>

lemma checkRateLimit_world [simp]: "snd (snd (checkRateLimit E (c, w))) = w"
  by (simp add: checkRateLimit.simps Let_def)

lemma checkRateLimit_exhausted:
  "MAX_CALLS_PER_HOUR E \<le> apiCallsThisHour c \<Longrightarrow> clock w - hourStartTime c < hourMs
    \<Longrightarrow> checkRateLimit E (c, w) = (False, (c, w))"
  by (simp add: checkRateLimit.simps Let_def)

section \<open>Single flight\<close>

text \<open>
  C1. In a state in which \<open>isRefreshing\<close> is true, \<^verbatim>\<open>refreshAll\<close> returns at once: the
  cache (events, odds, timestamps, counters, last error) and the world (clock, requests
  made upstream) are what they were, in the rate-limited service and in the OpticOdds
  service. Hence a call of \<^verbatim>\<open>refreshAll\<close> that changes anything was entered with
  \<open>isRefreshing\<close> false.
\<close>

theorem refreshAll_single_flight:
  "(isRefreshing c \<longrightarrow> refreshAll E (c, w) = (Inr (), (c, w)))
   \<and> (isRefreshing oc \<longrightarrow> refreshAll_optic E (oc, w) = (Inr (), (oc, w)))
   \<and> (snd (refreshAll E (c, w)) \<noteq> (c, w) \<longrightarrow> \<not> isRefreshing c)
   \<and> (snd (refreshAll_optic E (oc, w)) \<noteq> (oc, w) \<longrightarrow> \<not> isRefreshing oc)"
  by (auto simp: refreshAll.simps refreshAll_optic.simps)

theorem refreshAll_single_flight_witness:
  "refreshAll (sampleEnv alwaysDown) (new_cache 0\<lparr>isRefreshing := True\<rparr>, world0)
     = (Inr (), (new_cache 0\<lparr>isRefreshing := True\<rparr>, world0))
   \<and> refreshAll_optic (sampleEnv alwaysDown) (new_optic_cache\<lparr>isRefreshing := True\<rparr>, world0)
     = (Inr (), (new_optic_cache\<lparr>isRefreshing := True\<rparr>, world0))"
  using refreshAll_single_flight
    [of "new_cache 0\<lparr>isRefreshing := True\<rparr>" "sampleEnv alwaysDown" world0
        "new_optic_cache\<lparr>isRefreshing := True\<rparr>"]
  by (simp add: new_cache_def new_optic_cache_def)

section \<open>An exhausted budget\<close>

text \<open>
  C8. In the rate-limited service, when the counter stands at the limit and the window
  has not elapsed, \<^verbatim>\<open>fetchNbaOddsForEvent\<close> (and \<^verbatim>\<open>fetchFootballOddsForEvent\<close> with its
  default bookmakers) makes no request upstream and returns a snapshot whose bookmakers
  object has no key.
\<close>

theorem budget_exhausted_fetchOdds:
  assumes "apiCallsThisHour c = MAX_CALLS_PER_HOUR E" and "clock w - hourStartTime c < hourMs"
  shows "bookmakers (fst (fetchNbaOddsForEvent E eventId (c, w))) = []
       \<and> calls (snd (snd (fetchNbaOddsForEvent E eventId (c, w)))) = calls w
       \<and> bookmakers (fst (fetchFootballOddsForEvent E eventId FOOTBALL_BOOKMAKERS (c, w))) = []
       \<and> calls (snd (snd (fetchFootballOddsForEvent E eventId FOOTBALL_BOOKMAKERS (c, w))))
           = calls w"
proof -
  let ?w = "w\<lparr>oddsFetches := oddsFetches w @ [(Nba, eventId)]\<rparr>"
  let ?w' = "w\<lparr>oddsFetches := oddsFetches w @ [(Football, eventId)]\<rparr>"
  have chk: "checkRateLimit E (c, ?w) = (False, (c, ?w))"
    using assms by (intro checkRateLimit_exhausted) simp_all
  have chk': "checkRateLimit E (c, ?w') = (False, (c, ?w'))"
    using assms by (intro checkRateLimit_exhausted) simp_all
  have nba: "bookmakerLoop mergeNbaBookmaker E eventId NBA_BOOKMAKERS (emptyOdds (clock w)) (c, ?w)
             = (emptyOdds (clock w), (c, ?w))"
    by (simp add: NBA_BOOKMAKERS_def chk)
  have fb: "bookmakerLoop mergeFootballBookmaker E eventId FOOTBALL_BOOKMAKERS
              (emptyOdds (clock w)) (c, ?w')
             = (emptyOdds (clock w), (c, ?w'))"
    by (simp add: FOOTBALL_BOOKMAKERS_def chk')
  show ?thesis
    unfolding fetchNbaOddsForEvent.simps fetchFootballOddsForEvent.simps nba fb
    by (simp add: emptyOdds_def)
qed

theorem budget_exhausted_fetchOdds_witness:
  "apiCallsThisHour (new_cache 0\<lparr>apiCallsThisHour := 5\<rparr>)
     = MAX_CALLS_PER_HOUR (sampleEnv (alwaysJson JNull))
   \<and> clock world0 - hourStartTime (new_cache 0\<lparr>apiCallsThisHour := 5\<rparr>) < hourMs
   \<and> bookmakers (fst (fetchNbaOddsForEvent (sampleEnv (alwaysJson JNull)) (JStr ''E1'')
        (new_cache 0\<lparr>apiCallsThisHour := 5\<rparr>, world0))) = []
   \<and> calls (snd (snd (fetchNbaOddsForEvent (sampleEnv (alwaysJson JNull)) (JStr ''E1'')
        (new_cache 0\<lparr>apiCallsThisHour := 5\<rparr>, world0)))) = []"
proof -
  have h1: "apiCallsThisHour (new_cache 0\<lparr>apiCallsThisHour := 5\<rparr>)
              = MAX_CALLS_PER_HOUR (sampleEnv (alwaysJson JNull))"
    by (simp add: sampleEnv_def)
  have h2: "clock world0 - hourStartTime (new_cache 0\<lparr>apiCallsThisHour := 5\<rparr>) < hourMs"
    by (simp add: world0_def new_cache_def hourMs_def)
  show ?thesis
    using h1 h2 budget_exhausted_fetchOdds [OF h1 h2, of "JStr ''E1''"]
    by (simp add: world0_def)
qed

section \<open>A request consumes budget whatever its outcome\<close>

text \<open>
  C10. In the rate-limited service, when the budget test lets a request through,
  \<^verbatim>\<open>fetchWithRateLimit\<close> leaves the counter one above what the test left and the request
  is made, whatever the provider answers (\<open>up\<close> is any provider): the increment stands
  before the request in the method, so a request that fails is counted as one that
  succeeds.
\<close>

theorem failed_call_consumes_budget:
  assumes "fst (checkRateLimit E (c, w))"
  shows "apiCallsThisHour (fst (snd (fetchWithRateLimit (E\<lparr>upstream := up\<rparr>) u (c, w))))
           = apiCallsThisHour (fst (snd (checkRateLimit E (c, w)))) + 1
       \<and> calls (snd (snd (fetchWithRateLimit (E\<lparr>upstream := up\<rparr>) u (c, w)))) = calls w @ [u]"
proof -
  have eq: "checkRateLimit (E\<lparr>upstream := up\<rparr>) (c, w) = checkRateLimit E (c, w)"
    by (simp add: checkRateLimit.simps)
  obtain ok c1 w1 where chk: "checkRateLimit E (c, w) = (ok, (c1, w1))"
    by (metis prod.exhaust)
  with assms have ok by simp
  moreover have "w1 = w" using chk checkRateLimit_world [of E c w] by simp
  ultimately show ?thesis
    by (simp add: fetchWithRateLimit.simps eq chk Let_def split: sum.splits)
qed

theorem failed_call_consumes_budget_witness:
  "fst (checkRateLimit (sampleEnv alwaysDown) (new_cache 0, world0))
   \<and> apiCallsThisHour (fst (snd (fetchWithRateLimit
        ((sampleEnv alwaysDown)\<lparr>upstream := alwaysDown\<rparr>) ''u'' (new_cache 0, world0)))) = 1
   \<and> apiCallsThisHour (fst (snd (fetchWithRateLimit
        ((sampleEnv alwaysDown)\<lparr>upstream := alwaysJson (JArr [])\<rparr>) ''u'' (new_cache 0, world0)))) = 1"
proof -
  have h: "fst (checkRateLimit (sampleEnv alwaysDown) (new_cache 0, world0))"
    by (simp add: checkRateLimit.simps sampleEnv_def new_cache_def world0_def hourMs_def)
  have v: "apiCallsThisHour (fst (snd (checkRateLimit (sampleEnv alwaysDown) (new_cache 0, world0))))
             = 0"
    by (simp add: checkRateLimit.simps sampleEnv_def new_cache_def world0_def hourMs_def)
  show ?thesis
    using h failed_call_consumes_budget [OF h, of alwaysDown "''u''"]
      failed_call_consumes_budget [OF h, of "alwaysJson (JArr [])" "''u''"]
    by (simp add: v)
qed

section \<open>The call budget\<close>

lemma checkRateLimit_cases:
  "checkRateLimit E (c, w) =
     (if hourMs \<le> clock w - hourStartTime c
      then (0 < MAX_CALLS_PER_HOUR E, (c\<lparr>apiCallsThisHour := 0, hourStartTime := clock w\<rparr>, w))
      else (apiCallsThisHour c < MAX_CALLS_PER_HOUR E, (c, w)))"
  by (simp add: checkRateLimit.simps Let_def)

lemma checkRateLimit_budget:
  assumes "0 \<le> MAX_CALLS_PER_HOUR E" and "withinBudget E s"
  shows "withinBudget E (snd (checkRateLimit E s))"
    and "fst (checkRateLimit E s) \<Longrightarrow> apiCallsThisHour (fst (snd (checkRateLimit E s))) < MAX_CALLS_PER_HOUR E"
proof -
  obtain c w where s: "s = (c, w)" by (cases s)
  show "withinBudget E (snd (checkRateLimit E s))"
    using assms by (simp add: s checkRateLimit_cases withinBudget_def)
  show "apiCallsThisHour (fst (snd (checkRateLimit E s))) < MAX_CALLS_PER_HOUR E"
    if "fst (checkRateLimit E s)"
    using that by (simp add: s checkRateLimit_cases split: if_splits)
qed

lemma fetchWithRateLimit_budget:
  assumes "0 \<le> MAX_CALLS_PER_HOUR E" and "withinBudget E s"
  shows "withinBudget E (snd (fetchWithRateLimit E u s))"
proof -
  obtain ok c1 w1 where chk: "checkRateLimit E s = (ok, (c1, w1))"
    by (metis prod.exhaust)
  from checkRateLimit_budget [OF assms] chk
  have "apiCallsThisHour c1 \<le> MAX_CALLS_PER_HOUR E" "ok \<Longrightarrow> apiCallsThisHour c1 < MAX_CALLS_PER_HOUR E"
    by (simp_all add: withinBudget_def)
  then show ?thesis
    by (auto simp: fetchWithRateLimit.simps chk Let_def withinBudget_def split: sum.splits)
qed

lemma sleep_budget [simp]: "withinBudget E (sleep ms s) = withinBudget E s"
  by (simp add: sleep_def withinBudget_def)

lemma fetchNbaEvents_budget:
  assumes "0 \<le> MAX_CALLS_PER_HOUR E" and "withinBudget E s"
  shows "withinBudget E (snd (fetchNbaEvents E s))"
proof -
  obtain c w where s: "s = (c, w)" by (cases s)
  obtain d c1 w1 where f: "fetchWithRateLimit E (nbaEventsUrl E (clock w)) (c, w) = (d, (c1, w1))"
    by (metis prod.exhaust)
  from fetchWithRateLimit_budget [OF assms, of "nbaEventsUrl E (clock w)"] s f
  have "apiCallsThisHour c1 \<le> MAX_CALLS_PER_HOUR E" by (simp add: withinBudget_def)
  then show ?thesis by (simp add: s fetchNbaEvents.simps f Let_def withinBudget_def)
qed

lemma fetchFootballEvents_budget:
  assumes "0 \<le> MAX_CALLS_PER_HOUR E" and "withinBudget E s"
  shows "withinBudget E (snd (fetchFootballEvents E lg s))"
proof -
  obtain c w where s: "s = (c, w)" by (cases s)
  obtain d c1 w1 where f: "fetchWithRateLimit E (footballEventsUrl E lg (clock w)) (c, w) = (d, (c1, w1))"
    by (metis prod.exhaust)
  from fetchWithRateLimit_budget [OF assms, of "footballEventsUrl E lg (clock w)"] s f
  have "apiCallsThisHour c1 \<le> MAX_CALLS_PER_HOUR E" by (simp add: withinBudget_def)
  then show ?thesis by (simp add: s fetchFootballEvents.simps f Let_def withinBudget_def)
qed

lemma bookmakerLoop_budget:
  assumes "0 \<le> MAX_CALLS_PER_HOUR E"
  shows "withinBudget E s \<Longrightarrow> withinBudget E (snd (bookmakerLoop merge E eventId bms eo s))"
proof (induction bms arbitrary: eo s)
  case Nil
  then show ?case by simp
next
  case (Cons b bms)
  obtain ok s1 where chk: "checkRateLimit E s = (ok, s1)" by (metis prod.exhaust)
  have s1: "withinBudget E s1"
    using checkRateLimit_budget(1) [OF assms Cons.prems] chk by simp
  obtain d s2 where f: "fetchWithRateLimit E (oddsUrl E eventId b) s1 = (d, s2)"
    by (metis prod.exhaust)
  have s2: "withinBudget E s2"
    using fetchWithRateLimit_budget [OF assms s1, of "oddsUrl E eventId b"] f by simp
  show ?case
    using s1 s2 Cons.IH [of "sleep 50 s2"] by (simp add: chk f)
qed

lemma fetchNbaOddsForEvent_budget:
  assumes "0 \<le> MAX_CALLS_PER_HOUR E" and "withinBudget E s"
  shows "withinBudget E (snd (fetchNbaOddsForEvent E eventId s))"
proof -
  obtain c w where s: "s = (c, w)" by (cases s)
  let ?s0 = "(c, w\<lparr>oddsFetches := oddsFetches w @ [(Nba, eventId)]\<rparr>)"
  have "withinBudget E ?s0" using assms(2) s by (simp add: withinBudget_def)
  from bookmakerLoop_budget [OF assms(1) this, of mergeNbaBookmaker eventId NBA_BOOKMAKERS "emptyOdds (clock w)"]
  show ?thesis
    by (cases "bookmakerLoop mergeNbaBookmaker E eventId NBA_BOOKMAKERS (emptyOdds (clock w)) ?s0")
       (simp add: s fetchNbaOddsForEvent.simps withinBudget_def)
qed

lemma fetchFootballOddsForEvent_budget:
  assumes "0 \<le> MAX_CALLS_PER_HOUR E" and "withinBudget E s"
  shows "withinBudget E (snd (fetchFootballOddsForEvent E eventId bms s))"
proof -
  obtain c w where s: "s = (c, w)" by (cases s)
  let ?s0 = "(c, w\<lparr>oddsFetches := oddsFetches w @ [(Football, eventId)]\<rparr>)"
  have "withinBudget E ?s0" using assms(2) s by (simp add: withinBudget_def)
  from bookmakerLoop_budget [OF assms(1) this, of mergeFootballBookmaker eventId bms "emptyOdds (clock w)"]
  show ?thesis
    by (cases "bookmakerLoop mergeFootballBookmaker E eventId bms (emptyOdds (clock w)) ?s0")
       (simp add: s fetchFootballOddsForEvent.simps withinBudget_def)
qed

lemma oddsRefreshLoop_budget:
  assumes "0 \<le> MAX_CALLS_PER_HOUR E"
    and one: "\<And>eventId s. withinBudget E s \<Longrightarrow> withinBudget E (snd (fetchOne E eventId s))"
  shows "withinBudget E s \<Longrightarrow> withinBudget E (oddsRefreshLoop fetchOne E evs s)"
proof (induction evs arbitrary: s)
  case Nil
  then show ?case by simp
next
  case (Cons e evs)
  obtain ok s1 where chk: "checkRateLimit E s = (ok, s1)" by (metis prod.exhaust)
  have s1: "withinBudget E s1"
    using checkRateLimit_budget(1) [OF assms(1) Cons.prems] chk by simp
  show ?case
    using s1 one [OF s1] Cons.IH by (simp add: chk)
qed

lemma leaguesLoop_budget:
  assumes "0 \<le> MAX_CALLS_PER_HOUR E"
  shows "withinBudget E s \<Longrightarrow> withinBudget E (leaguesLoop E lgs s)"
proof (induction lgs arbitrary: s)
  case Nil
  then show ?case by simp
next
  case (Cons l lgs)
  obtain ok s1 where chk: "checkRateLimit E s = (ok, s1)" by (metis prod.exhaust)
  have s1: "withinBudget E s1"
    using checkRateLimit_budget(1) [OF assms(1) Cons.prems] chk by simp
  show ?case
    using s1 fetchFootballEvents_budget [OF assms s1] Cons.IH by (simp add: chk)
qed

lemma refreshNbaOdds_budget:
  assumes "0 \<le> MAX_CALLS_PER_HOUR E" and "withinBudget E s"
  shows "withinBudget E (snd (refreshNbaOdds E s))"
proof -
  let ?s1 = "ensureNbaEvents E s"
  have s1: "withinBudget E ?s1"
    using assms fetchNbaEvents_budget by (simp add: ensureNbaEvents_def)
  have lp: "withinBudget E (oddsRefreshLoop fetchNbaOddsForEvent E evs ?s1)" for evs
    by (rule oddsRefreshLoop_budget [where fetchOne = fetchNbaOddsForEvent, OF assms(1) _ s1])
       (rule fetchNbaOddsForEvent_budget [OF assms(1)])
  show ?thesis
  proof (cases "readPropError ''date'' (nbaEvents (fst ?s1))")
    case None
    let ?evs = "upcomingEvents E (clock (snd ?s1) + threeDaysMs) (nbaEvents (fst ?s1))"
    show ?thesis
      using lp [of ?evs] None
      by (cases "oddsRefreshLoop fetchNbaOddsForEvent E ?evs ?s1")
         (simp add: refreshNbaOdds.simps Let_def withinBudget_def)
  next
    case (Some err)
    then show ?thesis using s1 by (simp add: refreshNbaOdds.simps Let_def)
  qed
qed

lemma refreshFootballOdds_budget:
  assumes "0 \<le> MAX_CALLS_PER_HOUR E" and "withinBudget E s"
  shows "withinBudget E (refreshFootballOdds E s)"
proof -
  let ?s1 = "leaguesLoop E FOOTBALL_LEAGUES s"
  have s1: "withinBudget E ?s1"
    using assms leaguesLoop_budget by simp
  let ?f = "\<lambda>E' eventId. fetchFootballOddsForEvent E' eventId FOOTBALL_BOOKMAKERS"
  let ?evs = "upcomingEvents E (clock (snd ?s1) + threeDaysMs)
                (collectEvents FOOTBALL_LEAGUES (footballEvents (fst ?s1)))"
  have lp: "withinBudget E (oddsRefreshLoop ?f E ?evs ?s1)"
    by (rule oddsRefreshLoop_budget [where fetchOne = ?f, OF assms(1) _ s1])
       (rule fetchFootballOddsForEvent_budget [OF assms(1)])
  show ?thesis
    using lp
    by (cases "oddsRefreshLoop ?f E ?evs ?s1")
       (simp add: refreshFootballOdds.simps Let_def withinBudget_def)
qed

lemma getRemainingCalls_budget:
  assumes "0 \<le> MAX_CALLS_PER_HOUR E" and "withinBudget E s"
  shows "withinBudget E (snd (getRemainingCalls E s))"
  using checkRateLimit_budget(1) [OF assms]
  by (cases "checkRateLimit E s") (simp add: getRemainingCalls.simps withinBudget_def)

lemma refreshAll_budget:
  assumes "0 \<le> MAX_CALLS_PER_HOUR E" and "withinBudget E s"
  shows "withinBudget E (snd (refreshAll E s))"
proof -
  obtain c w where s: "s = (c, w)" by (cases s)
  let ?s0 = "snd (getRemainingCalls E (c\<lparr>isRefreshing := True\<rparr>, w))"
  have "withinBudget E (c\<lparr>isRefreshing := True\<rparr>, w)"
    using assms(2) s by (simp add: withinBudget_def)
  then have s0: "withinBudget E ?s0" by (rule getRemainingCalls_budget [OF assms(1)])
  have s1: "withinBudget E (snd (fetchNbaEvents E ?s0))"
    by (rule fetchNbaEvents_budget [OF assms(1) s0])
  have s2: "withinBudget E (snd (refreshNbaOdds E (snd (fetchNbaEvents E ?s0))))"
    by (rule refreshNbaOdds_budget [OF assms(1) s1])
  have s3: "withinBudget E (snd (refreshAll_try E ?s0))"
  proof -
    obtain r s2' where p: "refreshNbaOdds E (snd (fetchNbaEvents E ?s0)) = (r, s2')"
      by (metis prod.exhaust)
    then show ?thesis
      using s2 refreshFootballOdds_budget [OF assms(1), of s2']
      by (cases r) (simp_all add: refreshAll_try.simps)
  qed
  show ?thesis
  proof (cases "isRefreshing c")
    case True
    then show ?thesis using assms(2) by (simp add: s refreshAll.simps)
  next
    case False
    obtain r c1 w1 where t: "refreshAll_try E ?s0 = (r, (c1, w1))" by (metis prod.exhaust)
    with s3 have "apiCallsThisHour c1 \<le> MAX_CALLS_PER_HOUR E" by (simp add: withinBudget_def)
    then show ?thesis
      using False t by (cases r) (simp_all add: s refreshAll.simps withinBudget_def)
  qed
qed

lemma perform_budget:
  assumes "0 \<le> MAX_CALLS_PER_HOUR E" and "withinBudget E s"
  shows "withinBudget E (perform E a s)"
  using assms
  by (cases a)
     (simp_all add: fetchNbaEvents_budget fetchNbaOddsForEvent_budget refreshNbaOdds_budget
        fetchFootballEvents_budget fetchFootballOddsForEvent_budget refreshFootballOdds_budget
        refreshAll_budget getRemainingCalls_budget)

lemma performAll_budget:
  assumes "0 \<le> MAX_CALLS_PER_HOUR E"
  shows "withinBudget E s \<Longrightarrow> withinBudget E (performAll E ops s)"
  by (induction ops arbitrary: s) (simp_all add: perform_budget [OF assms])


text \<open>
  C2. In the rate-limited service, with a limit that is not negative and a counter that
  starts within it (as it does in a new cache, at 0), the counter is within the limit after
  any sequence of calls of the service's methods, with any time passing in between.
  The counter moves in two places only. The budget test resets it to 0 and the window
  start to the current time when a full window has elapsed, and does so once: a test
  repeated within the hour that follows leaves the state alone. The test passes exactly when
  the counter, after the possible reset, is below the limit. And \<^verbatim>\<open>fetchWithRateLimit\<close>,
  the one place where a request is made, makes it and adds one to the counter exactly when
  the test it starts with passes.
\<close>

theorem call_budget_invariant:
  assumes "0 \<le> MAX_CALLS_PER_HOUR E" and "apiCallsThisHour c \<le> MAX_CALLS_PER_HOUR E"
  shows "apiCallsThisHour (fst (performAll E ops (c, w))) \<le> MAX_CALLS_PER_HOUR E
       \<and> checkRateLimit E (c, w) =
           (if hourMs \<le> clock w - hourStartTime c
            then (0 < MAX_CALLS_PER_HOUR E,
                  (c\<lparr>apiCallsThisHour := 0, hourStartTime := clock w\<rparr>, w))
            else (apiCallsThisHour c < MAX_CALLS_PER_HOUR E, (c, w)))
       \<and> (\<forall>t. hourMs \<le> clock w - hourStartTime c \<and> clock w \<le> t \<and> t - clock w < hourMs \<longrightarrow>
              snd (checkRateLimit E (fst (snd (checkRateLimit E (c, w))), w\<lparr>clock := t\<rparr>))
                = (fst (snd (checkRateLimit E (c, w))), w\<lparr>clock := t\<rparr>))
       \<and> fst (checkRateLimit E (c, w))
           = (apiCallsThisHour (fst (snd (checkRateLimit E (c, w)))) < MAX_CALLS_PER_HOUR E)
       \<and> calls (snd (snd (fetchWithRateLimit E u (c, w))))
           = (if fst (checkRateLimit E (c, w)) then calls w @ [u] else calls w)
       \<and> apiCallsThisHour (fst (snd (fetchWithRateLimit E u (c, w))))
           = apiCallsThisHour (fst (snd (checkRateLimit E (c, w))))
               + (if fst (checkRateLimit E (c, w)) then 1 else 0)"
proof -
  have inv: "apiCallsThisHour (fst (performAll E ops (c, w))) \<le> MAX_CALLS_PER_HOUR E"
    using performAll_budget [OF assms(1), of "(c, w)" ops] assms(2)
    by (simp add: withinBudget_def)
  have once: "snd (checkRateLimit E (fst (snd (checkRateLimit E (c, w))), w\<lparr>clock := t\<rparr>))
                = (fst (snd (checkRateLimit E (c, w))), w\<lparr>clock := t\<rparr>)"
    if "hourMs \<le> clock w - hourStartTime c \<and> clock w \<le> t \<and> t - clock w < hourMs" for t
    using that by (simp add: checkRateLimit_cases)
  have gate: "fst (checkRateLimit E (c, w))
           = (apiCallsThisHour (fst (snd (checkRateLimit E (c, w)))) < MAX_CALLS_PER_HOUR E)"
    by (simp add: checkRateLimit_cases)
  obtain ok c1 where chk: "checkRateLimit E (c, w) = (ok, (c1, w))"
    using checkRateLimit_world [of E c w] by (metis prod.collapse)
  have req: "calls (snd (snd (fetchWithRateLimit E u (c, w))))
           = (if fst (checkRateLimit E (c, w)) then calls w @ [u] else calls w)"
    by (simp add: fetchWithRateLimit.simps chk Let_def split: sum.splits)
  have cnt: "apiCallsThisHour (fst (snd (fetchWithRateLimit E u (c, w))))
           = apiCallsThisHour (fst (snd (checkRateLimit E (c, w))))
               + (if fst (checkRateLimit E (c, w)) then 1 else 0)"
    by (simp add: fetchWithRateLimit.simps chk Let_def split: sum.splits)
  show ?thesis
    using inv once gate req cnt checkRateLimit_cases [of E c w] by blast
qed


theorem call_budget_invariant_witness:
  "0 \<le> MAX_CALLS_PER_HOUR (sampleEnv alwaysDown)
   \<and> apiCallsThisHour (new_cache 0) \<le> MAX_CALLS_PER_HOUR (sampleEnv alwaysDown)
   \<and> apiCallsThisHour (fst (performAll (sampleEnv alwaysDown)
        [CallFetchNbaOddsForEvent (JStr ''E1''), CallFetchNbaEvents] (new_cache 0, world0))) \<le> 5
   \<and> apiCallsThisHour (fst (performAll (sampleEnv alwaysDown)
        [CallFetchNbaOddsForEvent (JStr ''E1''), CallFetchNbaEvents] (new_cache 0, world0))) = 5"
proof -
  have h1: "0 \<le> MAX_CALLS_PER_HOUR (sampleEnv alwaysDown)"
    by (simp add: sampleEnv_def)
  have h2: "apiCallsThisHour (new_cache 0) \<le> MAX_CALLS_PER_HOUR (sampleEnv alwaysDown)"
    by (simp add: sampleEnv_def new_cache_def)
  have m: "MAX_CALLS_PER_HOUR (sampleEnv alwaysDown) = 5"
    by (simp add: sampleEnv_def)
  have run: "apiCallsThisHour (fst (performAll (sampleEnv alwaysDown)
        [CallFetchNbaOddsForEvent (JStr ''E1''), CallFetchNbaEvents] (new_cache 0, world0))) = 5"
    by (simp add: fetchNbaOddsForEvent.simps fetchNbaEvents.simps fetchWithRateLimit.simps
      checkRateLimit.simps sampleEnv_def alwaysDown_def new_cache_def world0_def hourMs_def
      NBA_BOOKMAKERS_def emptyOdds_def sleep_def Let_def mergeNbaBookmaker_def)
  show ?thesis
    using h1 h2 run
      call_budget_invariant [OF h1 h2,
        of "[CallFetchNbaOddsForEvent (JStr ''E1''), CallFetchNbaEvents]" world0 "''u''"]
    by (simp add: m)
qed

section \<open>The refresh cycle always ends\<close>

text \<open>
  C3. \<^verbatim>\<open>refreshAll\<close> never throws. When it is entered with \<open>isRefreshing\<close> false,
  \<open>isRefreshing\<close> is false when it returns; and if the cycle (the \<^verbatim>\<open>try\<close> block) throws an
  error in some state, \<^verbatim>\<open>refreshAll\<close> returns in that state with the error's message and
  the time recorded in \<open>lastError\<close> and \<open>isRefreshing\<close> false. Both services.
\<close>

theorem refreshAll_returns_idle:
  "fst (refreshAll E (c, w)) = Inr ()
   \<and> fst (refreshAll_optic E' (oc, w')) = Inr ()
   \<and> (\<not> isRefreshing c \<longrightarrow>
        \<not> isRefreshing (fst (snd (refreshAll E (c, w))))
        \<and> (\<forall>err c1 w1.
              refreshAll_try E (snd (getRemainingCalls E (c\<lparr>isRefreshing := True\<rparr>, w)))
                = (Inl err, (c1, w1))
              \<longrightarrow> snd (refreshAll E (c, w))
                    = (c1\<lparr>lastError :=
                            Some \<lparr>time = clock w1, message = exn_message err, url = None\<rparr>,
                          isRefreshing := False\<rparr>, w1)))
   \<and> (\<not> isRefreshing oc \<longrightarrow>
        \<not> isRefreshing (fst (snd (refreshAll_optic E' (oc, w'))))
        \<and> (\<forall>err c1 w1.
              refreshAll_try_optic E' (oc\<lparr>isRefreshing := True\<rparr>, w') = (Inl err, (c1, w1))
              \<longrightarrow> snd (refreshAll_optic E' (oc, w'))
                    = (c1\<lparr>lastError :=
                            Some \<lparr>time = clock w1, message = exn_message err, url = None\<rparr>,
                          isRefreshing := False\<rparr>, w1)))"
  by (auto simp: refreshAll.simps refreshAll_optic.simps split: prod.splits sum.splits)

theorem refreshAll_returns_idle_witness:
  "\<not> isRefreshing (new_cache 0)
   \<and> fst (refreshAll (sampleEnv (alwaysJson (JArr [JNull]))) (new_cache 0, world0)) = Inr ()
   \<and> \<not> isRefreshing (fst (snd (refreshAll (sampleEnv (alwaysJson (JArr [JNull])))
          (new_cache 0, world0))))
   \<and> lastError (fst (snd (refreshAll (sampleEnv (alwaysJson (JArr [JNull])))
          (new_cache 0, world0))))
       = Some \<lparr>time = 1010,
               message = ''Cannot read properties of null (reading '' @ [CHR 0x27] @ ''date''
                           @ [CHR 0x27] @ '')'',
               url = None\<rparr>
   \<and> \<not> isRefreshing new_optic_cache
   \<and> fst (refreshAll_optic (sampleEnv (alwaysJson (JObj [(''data'', JArr [JNull])])))
          (new_optic_cache, world0)) = Inr ()
   \<and> \<not> isRefreshing (fst (snd (refreshAll_optic
          (sampleEnv (alwaysJson (JObj [(''data'', JArr [JNull])]))) (new_optic_cache, world0))))
   \<and> lastError (fst (snd (refreshAll_optic
          (sampleEnv (alwaysJson (JObj [(''data'', JArr [JNull])]))) (new_optic_cache, world0))))
       = Some \<lparr>time = 1010,
               message = ''Cannot read properties of null (reading '' @ [CHR 0x27] @ ''id''
                           @ [CHR 0x27] @ '')'',
               url = None\<rparr>"
proof -
  have a: "\<not> isRefreshing (new_cache 0)" by (simp add: new_cache_def)
  have b: "\<not> isRefreshing new_optic_cache" by (simp add: new_optic_cache_def)
  have e1: "lastError (fst (snd (refreshAll (sampleEnv (alwaysJson (JArr [JNull])))
          (new_cache 0, world0))))
       = Some \<lparr>time = 1010,
               message = ''Cannot read properties of null (reading '' @ [CHR 0x27] @ ''date''
                           @ [CHR 0x27] @ '')'',
               url = None\<rparr>"
    by (simp add: refreshAll.simps refreshAll_try.simps getRemainingCalls.simps
          refreshNbaOdds.simps ensureNbaEvents_def fetchNbaEvents.simps fetchWithRateLimit.simps
          checkRateLimit.simps sampleEnv_def new_cache_def world0_def hourMs_def alwaysJson_def
          Let_def nbaEventsUrl_def readPropError_def)
  have e2: "lastError (fst (snd (refreshAll_optic
          (sampleEnv (alwaysJson (JObj [(''data'', JArr [JNull])]))) (new_optic_cache, world0))))
       = Some \<lparr>time = 1010,
               message = ''Cannot read properties of null (reading '' @ [CHR 0x27] @ ''id''
                           @ [CHR 0x27] @ '')'',
               url = None\<rparr>"
    by (simp add: refreshAll_optic.simps refreshAll_try_optic.simps fetchNbaEvents_optic.simps
          fetchApi.simps sampleEnv_def new_optic_cache_def world0_def alwaysJson_def Let_def
          readPropError_def getProp_def)
  show ?thesis
    using a b e1 e2
      refreshAll_returns_idle [of "sampleEnv (alwaysJson (JArr [JNull]))" "new_cache 0" world0
        "sampleEnv (alwaysJson (JObj [(''data'', JArr [JNull])]))" new_optic_cache world0]
    by simp
qed

section \<open>Fetching events\<close>

lemma sameStore_refl [simp]: "sameStore c c"
  by (simp add: sameStore_def)

lemma sameStore_fields:
  assumes "sameStore c c'"
  shows "nbaEvents c' = nbaEvents c" "nbaOdds c' = nbaOdds c"
    "footballEvents c' = footballEvents c" "footballOdds c' = footballOdds c"
    "lastNbaEventsUpdate c' = lastNbaEventsUpdate c" "lastNbaOddsUpdate c' = lastNbaOddsUpdate c"
    "lastFootballEventsUpdate c' = lastFootballEventsUpdate c"
    "lastFootballOddsUpdate c' = lastFootballOddsUpdate c" "isRefreshing c' = isRefreshing c"
proof -
  from assms obtain a h e where eq: "c' = c\<lparr>apiCallsThisHour := a, hourStartTime := h, lastError := e\<rparr>"
    unfolding sameStore_def by blast
  show "nbaEvents c' = nbaEvents c" "nbaOdds c' = nbaOdds c"
    "footballEvents c' = footballEvents c" "footballOdds c' = footballOdds c"
    "lastNbaEventsUpdate c' = lastNbaEventsUpdate c" "lastNbaOddsUpdate c' = lastNbaOddsUpdate c"
    "lastFootballEventsUpdate c' = lastFootballEventsUpdate c"
    "lastFootballOddsUpdate c' = lastFootballOddsUpdate c" "isRefreshing c' = isRefreshing c"
    by (simp_all add: eq)
qed

lemma sameStoreI:
  "c' = c\<lparr>apiCallsThisHour := a, hourStartTime := h, lastError := e\<rparr> \<Longrightarrow> sameStore c c'"
  by (simp add: sameStore_def)

lemma sameStore_trans: "sameStore c c1 \<Longrightarrow> sameStore c1 c2 \<Longrightarrow> sameStore c c2"
proof -
  assume "sameStore c c1" "sameStore c1 c2"
  then obtain a h e a' h' e' where
    "c1 = c\<lparr>apiCallsThisHour := a, hourStartTime := h, lastError := e\<rparr>"
    "c2 = c1\<lparr>apiCallsThisHour := a', hourStartTime := h', lastError := e'\<rparr>"
    unfolding sameStore_def by blast
  then have "c2 = c\<lparr>apiCallsThisHour := a', hourStartTime := h', lastError := e'\<rparr>" by simp
  then show ?thesis by (rule sameStoreI)
qed

lemma checkRateLimit_sameStore: "sameStore c (fst (snd (checkRateLimit E (c, w))))"
  by (simp add: checkRateLimit_cases sameStore_def)

lemma fetchWithRateLimit_sameStore: "sameStore c (fst (snd (fetchWithRateLimit E u (c, w))))"
proof -
  obtain ok c1 where chk: "checkRateLimit E (c, w) = (ok, (c1, w))"
    using checkRateLimit_world [of E c w] by (metis prod.collapse)
  have c1: "sameStore c c1" using checkRateLimit_sameStore [of c E w] chk by simp
  have "sameStore c1 (fst (snd (fetchWithRateLimit E u (c, w))))"
    by (simp add: fetchWithRateLimit.simps chk Let_def sameStore_def split: sum.splits)
  with c1 show ?thesis by (rule sameStore_trans)
qed

lemma fetchWithRateLimit_pass:
  assumes "fst (checkRateLimit E (c, w))"
  shows "fetchWithRateLimit E u (c, w) =
     (let c1 = fst (snd (checkRateLimit E (c, w)));
          c2 = c1\<lparr>apiCallsThisHour := apiCallsThisHour c1 + 1\<rparr>;
          w2 = w\<lparr>clock := clock w + int (fst (upstream E (length (calls w)) u)),
                 calls := calls w @ [u]\<rparr>
      in (case fetchOutcome (replyTo E w u) of
            Inr data \<Rightarrow> (data, (c2, w2))
          | Inl m \<Rightarrow>
              (JNull,
               (c2\<lparr>lastError := Some \<lparr>time = clock w2, message = m, url = Some u\<rparr>\<rparr>, w2))))"
proof -
  obtain ok c1 where chk: "checkRateLimit E (c, w) = (ok, (c1, w))"
    using checkRateLimit_world [of E c w] by (metis prod.collapse)
  with assms have ok by simp
  then show ?thesis
    by (simp add: fetchWithRateLimit.simps chk Let_def replyTo_def)
qed

lemma fetchWithRateLimit_blocked:
  assumes "\<not> fst (checkRateLimit E (c, w))"
  shows "fetchWithRateLimit E u (c, w) = (JNull, snd (checkRateLimit E (c, w)))"
  using assms by (cases "checkRateLimit E (c, w)") (auto simp: fetchWithRateLimit.simps)



lemma fetchNbaEvents_success:
  assumes "fst (checkRateLimit E (c, w))"
    and "fetchOutcome (replyTo E w (nbaEventsUrl E (clock w))) = Inr (JArr xs)"
  shows "nbaEvents (fst (snd (fetchNbaEvents E (c, w)))) = xs"
    and "lastNbaEventsUpdate (fst (snd (fetchNbaEvents E (c, w))))
          = Some (clock (snd (snd (fetchNbaEvents E (c, w)))))"
    and "fst (fetchNbaEvents E (c, w)) = xs"
  using assms(2)
  by (simp_all add: fetchNbaEvents.simps fetchWithRateLimit_pass [OF assms(1)] Let_def)


lemma fetchFootballEvents_success:
  assumes "fst (checkRateLimit E (c, w))"
    and "fetchOutcome (replyTo E w (footballEventsUrl E lg (clock w))) = Inr (JArr xs)"
  shows "eventsOf (footballEvents (fst (snd (fetchFootballEvents E lg (c, w))))) lg = xs"
    and "map_of (lastFootballEventsUpdate (fst (snd (fetchFootballEvents E lg (c, w))))) lg
          = Some (clock (snd (snd (fetchFootballEvents E lg (c, w)))))"
  using assms(2)
  by (simp_all add: fetchFootballEvents.simps fetchWithRateLimit_pass [OF assms(1)] Let_def
        eventsOf_def update_conv')

lemma fetchApi_keyed:
  assumes "OPTIC_API_KEY E \<noteq> []"
  shows "fetchApi E u (c, w) =
     (let c2 = c\<lparr>apiCallCount := apiCallCount c + 1\<rparr>;
          w2 = w\<lparr>clock := clock w + int (fst (upstream E (length (calls w)) u)),
                 calls := calls w @ [u]\<rparr>
      in (case fetchOutcome (replyTo E w u) of
            Inr data \<Rightarrow> (data, (c2, w2))
          | Inl m \<Rightarrow>
              (JNull,
               (c2\<lparr>lastError := Some \<lparr>time = clock w2, message = m, url = Some u\<rparr>\<rparr>, w2))))"
  using assms by (simp add: fetchApi.simps Let_def replyTo_def)


lemma find_nullish_None: "\<not> list_ex nullish xs \<Longrightarrow> find nullish xs = None"
  by (induction xs) auto

lemma fetchNbaEvents_optic_success:
  assumes "OPTIC_API_KEY E \<noteq> []"
    and "fetchOutcome (replyTo E w (OPTIC_API_BASE @ ''/fixtures/active?league=nba''))
           = Inr (JObj kvs)"
    and "map_of kvs ''data'' = Some (JArr xs)" and "\<not> list_ex nullish xs"
  shows "nbaEvents (fst (snd (fetchNbaEvents_optic E (c, w)))) = map (transformEvent ''nba'') xs"
    and "lastNbaEventsUpdate (fst (snd (fetchNbaEvents_optic E (c, w))))
          = Some (clock (snd (snd (fetchNbaEvents_optic E (c, w)))))"
    and "fst (fetchNbaEvents_optic E (c, w)) = Inr (map (transformEvent ''nba'') xs)"
  using assms(2,3) find_nullish_None [OF assms(4)]
  by (simp_all add: fetchNbaEvents_optic.simps fetchApi_keyed [OF assms(1)] Let_def getProp_def
        readPropError_def)



lemma fetchFootballEvents_optic_success:
  assumes "OPTIC_API_KEY E \<noteq> []"
    and "fetchOutcome (replyTo E w (footballEventsUrl_optic lg)) = Inr (JObj kvs)"
    and "map_of kvs ''data'' = Some (JArr xs)" and "\<not> list_ex nullish xs"
  shows "eventsOf (footballEvents (fst (snd (fetchFootballEvents_optic E lg (c, w))))) lg
          = map (transformEvent lg) xs"
    and "map_of (lastFootballEventsUpdate (fst (snd (fetchFootballEvents_optic E lg (c, w))))) lg
          = Some (clock (snd (snd (fetchFootballEvents_optic E lg (c, w)))))"
  using assms(2,3) find_nullish_None [OF assms(4)]
  by (simp_all add: fetchFootballEvents_optic.simps fetchApi_keyed [OF assms(1)] Let_def
        getProp_def readPropError_def eventsOf_def update_conv')



text \<open>
  C5, as stated, fails: with one event cached, a successful reply with the empty list
  leaves no event cached, in both services.
\<close>

theorem empty_response_keeps_events_counterexample:
  "nbaEvents cacheWithEvent = [sampleEvent ''E1'' 2000]
   \<and> fetchOutcome (replyTo (sampleEnv (alwaysJson (JArr []))) world0
        (nbaEventsUrl (sampleEnv (alwaysJson (JArr []))) (clock world0))) = Inr (JArr [])
   \<and> nbaEvents (fst (snd (fetchNbaEvents (sampleEnv (alwaysJson (JArr [])))
        (cacheWithEvent, world0)))) = []
   \<and> nbaEvents opticWithEvent = [sampleEvent ''E1'' 2000]
   \<and> nbaEvents (fst (snd (fetchNbaEvents_optic
        (sampleEnv (alwaysJson (JObj [(''data'', JArr [])]))) (opticWithEvent, world0)))) = []"
  by (simp add: fetchNbaEvents.simps fetchWithRateLimit.simps checkRateLimit.simps
        fetchNbaEvents_optic.simps fetchApi.simps replyTo_def sampleEnv_def alwaysJson_def
        cacheWithEvent_def opticWithEvent_def new_cache_def new_optic_cache_def world0_def
        hourMs_def Let_def getProp_def readPropError_def)

text \<open>
  C5, amended. When the request is made and the provider answers successfully with the
  empty list, the cached events of that scope are replaced by the empty list and the
  timestamp is set: the events cached before are cleared.
\<close>

theorem empty_response_clears_events:
  "(fst (checkRateLimit E (c, w))
      \<and> fetchOutcome (replyTo E w (nbaEventsUrl E (clock w))) = Inr (JArr []) \<longrightarrow>
      nbaEvents (fst (snd (fetchNbaEvents E (c, w)))) = []
      \<and> lastNbaEventsUpdate (fst (snd (fetchNbaEvents E (c, w))))
          = Some (clock (snd (snd (fetchNbaEvents E (c, w))))))
   \<and> (fst (checkRateLimit E (c, w))
      \<and> fetchOutcome (replyTo E w (footballEventsUrl E lg (clock w))) = Inr (JArr []) \<longrightarrow>
      eventsOf (footballEvents (fst (snd (fetchFootballEvents E lg (c, w))))) lg = []
      \<and> map_of (lastFootballEventsUpdate (fst (snd (fetchFootballEvents E lg (c, w))))) lg
          = Some (clock (snd (snd (fetchFootballEvents E lg (c, w))))))
   \<and> (OPTIC_API_KEY E \<noteq> []
      \<and> fetchOutcome (replyTo E w (OPTIC_API_BASE @ ''/fixtures/active?league=nba''))
          = Inr (JObj kvs)
      \<and> map_of kvs ''data'' = Some (JArr []) \<longrightarrow>
      nbaEvents (fst (snd (fetchNbaEvents_optic E (oc, w)))) = []
      \<and> lastNbaEventsUpdate (fst (snd (fetchNbaEvents_optic E (oc, w))))
          = Some (clock (snd (snd (fetchNbaEvents_optic E (oc, w))))))
   \<and> (OPTIC_API_KEY E \<noteq> []
      \<and> fetchOutcome (replyTo E w (footballEventsUrl_optic lg)) = Inr (JObj kvs')
      \<and> map_of kvs' ''data'' = Some (JArr []) \<longrightarrow>
      eventsOf (footballEvents (fst (snd (fetchFootballEvents_optic E lg (oc, w))))) lg = []
      \<and> map_of (lastFootballEventsUpdate (fst (snd (fetchFootballEvents_optic E lg (oc, w)))))
           lg
          = Some (clock (snd (snd (fetchFootballEvents_optic E lg (oc, w))))))"
  using fetchNbaEvents_success [of E c w "[]"] fetchFootballEvents_success [of E c w lg "[]"]
    fetchNbaEvents_optic_success [of E w kvs "[]" oc]
    fetchFootballEvents_optic_success [of E w lg kvs' "[]" oc]
  by simp

theorem empty_response_clears_events_witness:
  "fst (checkRateLimit (sampleEnv (alwaysJson (JArr []))) (cacheWithEvent, world0))
   \<and> fetchOutcome (replyTo (sampleEnv (alwaysJson (JArr []))) world0
        (nbaEventsUrl (sampleEnv (alwaysJson (JArr []))) (clock world0))) = Inr (JArr [])
   \<and> nbaEvents (fst (snd (fetchNbaEvents (sampleEnv (alwaysJson (JArr [])))
        (cacheWithEvent, world0)))) = []
   \<and> lastNbaEventsUpdate (fst (snd (fetchNbaEvents (sampleEnv (alwaysJson (JArr [])))
        (cacheWithEvent, world0))))
       = Some (clock (snd (snd (fetchNbaEvents (sampleEnv (alwaysJson (JArr [])))
            (cacheWithEvent, world0)))))"
proof -
  let ?U = "sampleEnv (alwaysJson (JArr []))"
  have g: "fst (checkRateLimit ?U (cacheWithEvent, world0))"
    by (simp add: checkRateLimit_cases sampleEnv_def cacheWithEvent_def new_cache_def
          world0_def hourMs_def)
  have o: "fetchOutcome (replyTo ?U world0 (nbaEventsUrl ?U (clock world0))) = Inr (JArr [])"
    by (simp add: replyTo_def sampleEnv_def alwaysJson_def)
  show ?thesis
    using g o empty_response_clears_events [where E = ?U and c = cacheWithEvent and w = world0]
    by simp
qed

section \<open>What the methods leave alone\<close>

lemma sleep_fst [simp]: "fst (sleep ms s) = fst s"
  by (simp add: sleep_def)

lemma sleep_calls [simp]: "calls (snd (sleep ms s)) = calls (snd s)"
  by (simp add: sleep_def)

lemma sleep_oddsFetches [simp]: "oddsFetches (snd (sleep ms s)) = oddsFetches (snd s)"
  by (simp add: sleep_def)

lemma checkRateLimit_snd_snd [simp]: "snd (snd (checkRateLimit E s)) = snd s"
  by (cases s) simp

lemma checkRateLimit_sameStore': "sameStore (fst s) (fst (snd (checkRateLimit E s)))"
  by (cases s) (simp add: checkRateLimit_sameStore)

lemma fetchWithRateLimit_sameStore': "sameStore (fst s) (fst (snd (fetchWithRateLimit E u s)))"
  by (cases s) (simp add: fetchWithRateLimit_sameStore)

lemma fetchWithRateLimit_oddsFetches [simp]:
  "oddsFetches (snd (snd (fetchWithRateLimit E u s))) = oddsFetches (snd s)"
proof -
  obtain c w where s: "s = (c, w)" by (cases s)
  obtain ok c1 where chk: "checkRateLimit E (c, w) = (ok, (c1, w))"
    using checkRateLimit_world [of E c w] by (metis prod.collapse)
  show ?thesis by (simp add: s fetchWithRateLimit.simps chk Let_def split: sum.splits)
qed

lemma bookmakerLoop_sameStore:
  "sameStore (fst s) (fst (snd (bookmakerLoop merge E eventId bms eo s)))"
proof (induction bms arbitrary: eo s)
  case Nil
  show ?case by simp
next
  case (Cons b bms)
  obtain ok s1 where chk: "checkRateLimit E s = (ok, s1)" by (metis prod.exhaust)
  have c1: "sameStore (fst s) (fst s1)" using checkRateLimit_sameStore' [of s E] chk by simp
  obtain d s2 where f: "fetchWithRateLimit E (oddsUrl E eventId b) s1 = (d, s2)"
    by (metis prod.exhaust)
  have c2: "sameStore (fst s1) (fst s2)"
    using fetchWithRateLimit_sameStore' [of s1 E "oddsUrl E eventId b"] f by simp
  have "sameStore (fst s2)
          (fst (snd (bookmakerLoop merge E eventId bms (merge b d eo) (sleep 50 s2))))"
    using Cons.IH [where eo = "merge b d eo" and s = "sleep 50 s2"] by simp
  with c1 c2 have "sameStore (fst s)
          (fst (snd (bookmakerLoop merge E eventId bms (merge b d eo) (sleep 50 s2))))"
    by (blast intro: sameStore_trans)
  then show ?case using c1 by (simp add: chk f)
qed

lemma bookmakerLoop_oddsFetches [simp]:
  "oddsFetches (snd (snd (bookmakerLoop merge E i bms eo s))) = oddsFetches (snd s)"
proof (induction bms arbitrary: eo s)
  case Nil
  show ?case by simp
next
  case (Cons b bms)
  obtain ok s1 where chk: "checkRateLimit E s = (ok, s1)" by (metis prod.exhaust)
  have s1: "snd s1 = snd s" using checkRateLimit_snd_snd [of E s] chk by simp
  obtain d s2 where f: "fetchWithRateLimit E (oddsUrl E i b) s1 = (d, s2)"
    by (metis prod.exhaust)
  have s2: "oddsFetches (snd s2) = oddsFetches (snd s)"
    using fetchWithRateLimit_oddsFetches [of E "oddsUrl E i b" s1] f s1 by simp
  show ?case by (simp add: chk f s1 s2 Cons.IH)
qed

lemma fetchNbaEvents_frame [simp]:
  "oddsFetches (snd (snd (fetchNbaEvents E s))) = oddsFetches (snd s)"
  "nbaOdds (fst (snd (fetchNbaEvents E s))) = nbaOdds (fst s)"
  "footballOdds (fst (snd (fetchNbaEvents E s))) = footballOdds (fst s)"
proof -
  obtain c w where s: "s = (c, w)" by (cases s)
  obtain d c1 w1 where f: "fetchWithRateLimit E (nbaEventsUrl E (clock w)) (c, w) = (d, (c1, w1))"
    by (metis prod.exhaust)
  have ss: "sameStore c c1"
    using fetchWithRateLimit_sameStore [of c E "nbaEventsUrl E (clock w)" w] f by simp
  have o: "oddsFetches w1 = oddsFetches w"
    using fetchWithRateLimit_oddsFetches [of E "nbaEventsUrl E (clock w)" "(c, w)"] f by simp
  show "oddsFetches (snd (snd (fetchNbaEvents E s))) = oddsFetches (snd s)"
    by (simp add: s fetchNbaEvents.simps f Let_def o)
  show "nbaOdds (fst (snd (fetchNbaEvents E s))) = nbaOdds (fst s)"
    by (simp add: s fetchNbaEvents.simps f Let_def sameStore_fields(2) [OF ss])
  show "footballOdds (fst (snd (fetchNbaEvents E s))) = footballOdds (fst s)"
    by (simp add: s fetchNbaEvents.simps f Let_def sameStore_fields(4) [OF ss])
qed

lemma fetchFootballEvents_frame [simp]:
  "oddsFetches (snd (snd (fetchFootballEvents E lg s))) = oddsFetches (snd s)"
  "nbaOdds (fst (snd (fetchFootballEvents E lg s))) = nbaOdds (fst s)"
  "footballOdds (fst (snd (fetchFootballEvents E lg s))) = footballOdds (fst s)"
proof -
  obtain c w where s: "s = (c, w)" by (cases s)
  obtain d c1 w1 where
    f: "fetchWithRateLimit E (footballEventsUrl E lg (clock w)) (c, w) = (d, (c1, w1))"
    by (metis prod.exhaust)
  have ss: "sameStore c c1"
    using fetchWithRateLimit_sameStore [of c E "footballEventsUrl E lg (clock w)" w] f by simp
  have o: "oddsFetches w1 = oddsFetches w"
    using fetchWithRateLimit_oddsFetches [of E "footballEventsUrl E lg (clock w)" "(c, w)"] f
    by simp
  show "oddsFetches (snd (snd (fetchFootballEvents E lg s))) = oddsFetches (snd s)"
    by (simp add: s fetchFootballEvents.simps f Let_def o)
  show "nbaOdds (fst (snd (fetchFootballEvents E lg s))) = nbaOdds (fst s)"
    by (simp add: s fetchFootballEvents.simps f Let_def sameStore_fields(2) [OF ss])
  show "footballOdds (fst (snd (fetchFootballEvents E lg s))) = footballOdds (fst s)"
    by (simp add: s fetchFootballEvents.simps f Let_def sameStore_fields(4) [OF ss])
qed

lemma fetchApi_frame [simp]:
  "oddsFetches (snd (snd (fetchApi E u s))) = oddsFetches (snd s)"
  "nbaEvents (fst (snd (fetchApi E u s))) = nbaEvents (fst s)"
  "footballEvents (fst (snd (fetchApi E u s))) = footballEvents (fst s)"
  "nbaOdds (fst (snd (fetchApi E u s))) = nbaOdds (fst s)"
  "footballOdds (fst (snd (fetchApi E u s))) = footballOdds (fst s)"
proof -
  obtain c w where s: "s = (c, w)" by (cases s)
  show "oddsFetches (snd (snd (fetchApi E u s))) = oddsFetches (snd s)"
    by (simp add: s fetchApi.simps Let_def split: sum.splits)
  show "nbaEvents (fst (snd (fetchApi E u s))) = nbaEvents (fst s)"
    by (simp add: s fetchApi.simps Let_def split: sum.splits)
  show "footballEvents (fst (snd (fetchApi E u s))) = footballEvents (fst s)"
    by (simp add: s fetchApi.simps Let_def split: sum.splits)
  show "nbaOdds (fst (snd (fetchApi E u s))) = nbaOdds (fst s)"
    by (simp add: s fetchApi.simps Let_def split: sum.splits)
  show "footballOdds (fst (snd (fetchApi E u s))) = footballOdds (fst s)"
    by (simp add: s fetchApi.simps Let_def split: sum.splits)
qed

lemma fetchNbaEvents_optic_frame [simp]:
  "oddsFetches (snd (snd (fetchNbaEvents_optic E s))) = oddsFetches (snd s)"
  "nbaOdds (fst (snd (fetchNbaEvents_optic E s))) = nbaOdds (fst s)"
  "footballOdds (fst (snd (fetchNbaEvents_optic E s))) = footballOdds (fst s)"
proof -
  let ?u = "OPTIC_API_BASE @ ''/fixtures/active?league=nba''"
  obtain d c1 w1 where F: "fetchApi E ?u s = (d, (c1, w1))" by (metis prod.exhaust)
  have a: "oddsFetches w1 = oddsFetches (snd s)" "nbaOdds c1 = nbaOdds (fst s)"
    "footballOdds c1 = footballOdds (fst s)"
    using fetchApi_frame [of E ?u s] F by simp_all
  show "oddsFetches (snd (snd (fetchNbaEvents_optic E s))) = oddsFetches (snd s)"
    by (simp add: fetchNbaEvents_optic.simps F Let_def a split: option.splits)
  show "nbaOdds (fst (snd (fetchNbaEvents_optic E s))) = nbaOdds (fst s)"
    by (simp add: fetchNbaEvents_optic.simps F Let_def a split: option.splits)
  show "footballOdds (fst (snd (fetchNbaEvents_optic E s))) = footballOdds (fst s)"
    by (simp add: fetchNbaEvents_optic.simps F Let_def a split: option.splits)
qed

lemma fetchFootballEvents_optic_frame [simp]:
  "oddsFetches (snd (snd (fetchFootballEvents_optic E lg s))) = oddsFetches (snd s)"
  "nbaOdds (fst (snd (fetchFootballEvents_optic E lg s))) = nbaOdds (fst s)"
  "footballOdds (fst (snd (fetchFootballEvents_optic E lg s))) = footballOdds (fst s)"
proof -
  let ?u = "footballEventsUrl_optic lg"
  obtain d c1 w1 where F: "fetchApi E ?u s = (d, (c1, w1))" by (metis prod.exhaust)
  have a: "oddsFetches w1 = oddsFetches (snd s)" "nbaOdds c1 = nbaOdds (fst s)"
    "footballOdds c1 = footballOdds (fst s)"
    using fetchApi_frame [of E ?u s] F by simp_all
  show "oddsFetches (snd (snd (fetchFootballEvents_optic E lg s))) = oddsFetches (snd s)"
    by (simp add: fetchFootballEvents_optic.simps F Let_def a split: option.splits)
  show "nbaOdds (fst (snd (fetchFootballEvents_optic E lg s))) = nbaOdds (fst s)"
    by (simp add: fetchFootballEvents_optic.simps F Let_def a split: option.splits)
  show "footballOdds (fst (snd (fetchFootballEvents_optic E lg s))) = footballOdds (fst s)"
    by (simp add: fetchFootballEvents_optic.simps F Let_def a split: option.splits)
qed


section \<open>Fetching the odds of one event\<close>

lemma map_of_storeEntry_other: "k' \<noteq> k \<Longrightarrow> map_of (storeEntry k v kvs) k' = map_of kvs k'"
  by (simp add: storeEntry_def update_conv')

lemma map_of_storeEntry_same:
  "k \<noteq> ''__proto__'' \<Longrightarrow> map_of (storeEntry k v kvs) k = Some v"
  by (simp add: storeEntry_def update_conv')

lemma bookmakerLoop_cachedAt:
  assumes "\<And>b d eo. cachedAt (merge b d eo) = cachedAt eo"
  shows "cachedAt (fst (bookmakerLoop merge E eventId bms eo s)) = cachedAt eo"
proof (induction bms arbitrary: eo s)
  case Nil
  show ?case by simp
next
  case (Cons b bms)
  show ?case
    by (cases "checkRateLimit E s")
       (simp add: Cons.IH assms split: prod.splits)
qed

lemma fetchWithRateLimit_allFail:
  assumes "\<forall>n u. \<exists>m. fetchOutcome (snd (upstream E n u)) = Inl m"
  shows "fst (fetchWithRateLimit E u s) = JNull"
proof -
  obtain ok c1 w1 where chk: "checkRateLimit E s = (ok, (c1, w1))" by (metis prod.exhaust)
  obtain m where "fetchOutcome (snd (upstream E (length (calls w1)) u)) = Inl m"
    using assms by blast
  then show ?thesis by (simp add: fetchWithRateLimit.simps chk Let_def)
qed

lemma bookmakerLoop_allFail:
  assumes "\<forall>n u. \<exists>m. fetchOutcome (snd (upstream E n u)) = Inl m"
    and "\<And>b eo. merge b JNull eo = eo"
  shows "fst (bookmakerLoop merge E eventId bms eo s) = eo"
proof (induction bms arbitrary: s)
  case Nil
  show ?case by simp
next
  case (Cons b bms)
  obtain ok s1 where chk: "checkRateLimit E s = (ok, s1)" by (metis prod.exhaust)
  obtain d s2 where f: "fetchWithRateLimit E (oddsUrl E eventId b) s1 = (d, s2)"
    by (metis prod.exhaust)
  have "d = JNull"
    using fetchWithRateLimit_allFail [OF assms(1), of "oddsUrl E eventId b" s1] f by simp
  then show ?case by (simp add: chk f assms(2) Cons.IH)
qed

lemma merge_null [simp]:
  "mergeNbaBookmaker b JNull eo = eo" "mergeFootballBookmaker b JNull eo = eo"
  by (simp_all add: mergeNbaBookmaker_def mergeFootballBookmaker_def)

lemma merge_cachedAt [simp]:
  "cachedAt (mergeNbaBookmaker b d eo) = cachedAt eo"
  "cachedAt (mergeFootballBookmaker b d eo) = cachedAt eo"
  by (simp_all add: mergeNbaBookmaker_def mergeFootballBookmaker_def)

text \<open>
  What the two rate-limited methods do, in terms of the loop's result: the snapshot is
  stored, and nothing else of the tables and of the history changes.
\<close>

lemma fetchNbaOddsForEvent_result:
  "\<exists>eo c1 w1. fetchNbaOddsForEvent E i (c, w)
       = (eo, (c1\<lparr>nbaOdds := storeEntry (toString i) eo (nbaOdds c)\<rparr>, w1))
     \<and> nbaOdds c1 = nbaOdds c \<and> footballOdds c1 = footballOdds c
     \<and> oddsFetches w1 = oddsFetches w @ [(Nba, i)] \<and> cachedAt eo = clock w"
proof -
  let ?s0 = "(c, w\<lparr>oddsFetches := oddsFetches w @ [(Nba, i)]\<rparr>)"
  obtain eo c1 w1 where
    L: "bookmakerLoop mergeNbaBookmaker E i NBA_BOOKMAKERS (emptyOdds (clock w)) ?s0
          = (eo, (c1, w1))"
    by (metis prod.exhaust)
  have ss: "sameStore c c1"
    using bookmakerLoop_sameStore
      [of ?s0 mergeNbaBookmaker E i NBA_BOOKMAKERS "emptyOdds (clock w)"] L
    by simp
  have o: "oddsFetches w1 = oddsFetches w @ [(Nba, i)]"
    using bookmakerLoop_oddsFetches
      [of mergeNbaBookmaker E i NBA_BOOKMAKERS "emptyOdds (clock w)" ?s0] L
    by simp
  have ca: "cachedAt eo = clock w"
    using bookmakerLoop_cachedAt
      [of mergeNbaBookmaker E i NBA_BOOKMAKERS "emptyOdds (clock w)" ?s0] L
    by (simp add: emptyOdds_def)
  have "fetchNbaOddsForEvent E i (c, w)
       = (eo, (c1\<lparr>nbaOdds := storeEntry (toString i) eo (nbaOdds c)\<rparr>, w1))"
    by (simp add: fetchNbaOddsForEvent.simps L sameStore_fields(2) [OF ss])
  then show ?thesis
    using sameStore_fields(2,4) [OF ss] o ca by blast
qed

lemma fetchFootballOddsForEvent_result:
  "\<exists>eo c1 w1. fetchFootballOddsForEvent E i bms (c, w)
       = (eo, (c1\<lparr>footballOdds := storeEntry (toString i) eo (footballOdds c)\<rparr>, w1))
     \<and> nbaOdds c1 = nbaOdds c \<and> footballOdds c1 = footballOdds c
     \<and> oddsFetches w1 = oddsFetches w @ [(Football, i)] \<and> cachedAt eo = clock w"
proof -
  let ?s0 = "(c, w\<lparr>oddsFetches := oddsFetches w @ [(Football, i)]\<rparr>)"
  obtain eo c1 w1 where
    L: "bookmakerLoop mergeFootballBookmaker E i bms (emptyOdds (clock w)) ?s0
          = (eo, (c1, w1))"
    by (metis prod.exhaust)
  have ss: "sameStore c c1"
    using bookmakerLoop_sameStore
      [of ?s0 mergeFootballBookmaker E i bms "emptyOdds (clock w)"] L
    by simp
  have o: "oddsFetches w1 = oddsFetches w @ [(Football, i)]"
    using bookmakerLoop_oddsFetches
      [of mergeFootballBookmaker E i bms "emptyOdds (clock w)" ?s0] L
    by simp
  have ca: "cachedAt eo = clock w"
    using bookmakerLoop_cachedAt
      [of mergeFootballBookmaker E i bms "emptyOdds (clock w)" ?s0] L
    by (simp add: emptyOdds_def)
  have "fetchFootballOddsForEvent E i bms (c, w)
       = (eo, (c1\<lparr>footballOdds := storeEntry (toString i) eo (footballOdds c)\<rparr>, w1))"
    by (simp add: fetchFootballOddsForEvent.simps L sameStore_fields(4) [OF ss])
  then show ?thesis
    using sameStore_fields(2,4) [OF ss] o ca by blast
qed

lemma fetchNbaOddsForEvent_stores:
  "toString i \<noteq> ''__proto__'' \<Longrightarrow>
     map_of (nbaOdds (fst (snd (fetchNbaOddsForEvent E i (c, w))))) (toString i)
       = Some (fst (fetchNbaOddsForEvent E i (c, w)))"
  "k \<noteq> toString i \<Longrightarrow>
     map_of (nbaOdds (fst (snd (fetchNbaOddsForEvent E i (c, w))))) k = map_of (nbaOdds c) k"
  "cachedAt (fst (fetchNbaOddsForEvent E i (c, w))) = clock w"
  "footballOdds (fst (snd (fetchNbaOddsForEvent E i (c, w)))) = footballOdds c"
  "oddsFetches (snd (snd (fetchNbaOddsForEvent E i (c, w)))) = oddsFetches w @ [(Nba, i)]"
  using fetchNbaOddsForEvent_result [of E i c w]
  by (auto simp: map_of_storeEntry_same map_of_storeEntry_other)

lemma fetchFootballOddsForEvent_stores:
  "toString i \<noteq> ''__proto__'' \<Longrightarrow>
     map_of (footballOdds (fst (snd (fetchFootballOddsForEvent E i bms (c, w))))) (toString i)
       = Some (fst (fetchFootballOddsForEvent E i bms (c, w)))"
  "k \<noteq> toString i \<Longrightarrow>
     map_of (footballOdds (fst (snd (fetchFootballOddsForEvent E i bms (c, w))))) k
       = map_of (footballOdds c) k"
  "cachedAt (fst (fetchFootballOddsForEvent E i bms (c, w))) = clock w"
  "nbaOdds (fst (snd (fetchFootballOddsForEvent E i bms (c, w)))) = nbaOdds c"
  "oddsFetches (snd (snd (fetchFootballOddsForEvent E i bms (c, w))))
     = oddsFetches w @ [(Football, i)]"
  using fetchFootballOddsForEvent_result [of E i bms c w]
  by (auto simp: map_of_storeEntry_same map_of_storeEntry_other)

lemma fetchOdds_allFail:
  assumes "\<forall>n u. \<exists>m. fetchOutcome (snd (upstream E n u)) = Inl m"
  shows "bookmakers (fst (fetchNbaOddsForEvent E i (c, w))) = []"
    and "bookmakers (fst (fetchFootballOddsForEvent E i bms (c, w))) = []"
proof -
  let ?n = "(c, w\<lparr>oddsFetches := oddsFetches w @ [(Nba, i)]\<rparr>)"
  let ?f = "(c, w\<lparr>oddsFetches := oddsFetches w @ [(Football, i)]\<rparr>)"
  show "bookmakers (fst (fetchNbaOddsForEvent E i (c, w))) = []"
    using bookmakerLoop_allFail
      [OF assms, of mergeNbaBookmaker i NBA_BOOKMAKERS "emptyOdds (clock w)" ?n]
    by (cases "bookmakerLoop mergeNbaBookmaker E i NBA_BOOKMAKERS (emptyOdds (clock w)) ?n")
       (simp add: fetchNbaOddsForEvent.simps emptyOdds_def)
  show "bookmakers (fst (fetchFootballOddsForEvent E i bms (c, w))) = []"
    using bookmakerLoop_allFail
      [OF assms, of mergeFootballBookmaker i bms "emptyOdds (clock w)" ?f]
    by (cases "bookmakerLoop mergeFootballBookmaker E i bms (emptyOdds (clock w)) ?f")
       (simp add: fetchFootballOddsForEvent.simps emptyOdds_def)
qed

lemma bookmakerLoop_exhausted:
  "MAX_CALLS_PER_HOUR E \<le> apiCallsThisHour c \<Longrightarrow> clock w - hourStartTime c < hourMs
    \<Longrightarrow> bookmakerLoop merge E eventId bms eo (c, w) = (eo, (c, w))"
  by (cases bms) (simp_all add: checkRateLimit_exhausted)

lemma fetchOdds_exhausted:
  assumes "MAX_CALLS_PER_HOUR E \<le> apiCallsThisHour c \<and> clock w - hourStartTime c < hourMs"
  shows "bookmakers (fst (fetchNbaOddsForEvent E eventId (c, w))) = []
       \<and> bookmakers (fst (fetchFootballOddsForEvent E eventId bms (c, w))) = []"
  using assms
  by (simp add: fetchNbaOddsForEvent.simps fetchFootballOddsForEvent.simps
        bookmakerLoop_exhausted emptyOdds_def)

lemma fetchApi_allFail:
  assumes "\<forall>n u. \<exists>m. fetchOutcome (snd (upstream E n u)) = Inl m"
  shows "fst (fetchApi E u s) = JNull"
proof -
  obtain c w where s: "s = (c, w)" by (cases s)
  obtain m where "fetchOutcome (snd (upstream E (length (calls w)) u)) = Inl m"
    using assms by blast
  then show ?thesis by (simp add: s fetchApi.simps Let_def)
qed

lemma mergeOdds_cachedAt:
  "mergeOdds ods eo = Inr eo' \<Longrightarrow> cachedAt eo' = cachedAt eo"
  by (induction ods arbitrary: eo) (auto simp: mergeOdd_def Let_def split: option.splits)

lemma buildOdds_cachedAt:
  "buildOdds E d eo = Inr eo' \<Longrightarrow> cachedAt eo' = cachedAt eo"
  by (auto simp: buildOdds_def Let_def split: if_splits option.splits sum.splits
      dest: mergeOdds_cachedAt)

lemma buildOdds_null [simp]: "buildOdds E JNull eo = Inr eo"
  by (simp add: buildOdds_def)

text \<open>The same for the two OpticOdds methods, which may throw before the store.\<close>

lemma fetchNbaOddsForEvent_optic_result:
  "\<exists>d c1 w1. fetchApi E (oddsUrl_optic i NBA_BOOKMAKERS_optic)
                 (c, w\<lparr>oddsFetches := oddsFetches w @ [(Nba, i)]\<rparr>) = (d, (c1, w1))
     \<and> nbaOdds c1 = nbaOdds c \<and> footballOdds c1 = footballOdds c
     \<and> nbaEvents c1 = nbaEvents c \<and> footballEvents c1 = footballEvents c
     \<and> oddsFetches w1 = oddsFetches w @ [(Nba, i)]
     \<and> fetchNbaOddsForEvent_optic E i (c, w)
         = (case buildOdds E d (emptyOdds (clock w)) of
              Inl err \<Rightarrow> (Inl err, (c1, w1))
            | Inr eo \<Rightarrow>
                (Inr eo, (c1\<lparr>nbaOdds := storeEntry (toString i) eo (nbaOdds c)\<rparr>, w1)))"
proof -
  let ?s0 = "(c, w\<lparr>oddsFetches := oddsFetches w @ [(Nba, i)]\<rparr>)"
  let ?u = "oddsUrl_optic i NBA_BOOKMAKERS_optic"
  obtain d c1 w1 where F: "fetchApi E ?u ?s0 = (d, (c1, w1))" by (metis prod.exhaust)
  have a: "oddsFetches w1 = oddsFetches w @ [(Nba, i)]" "nbaEvents c1 = nbaEvents c"
    "footballEvents c1 = footballEvents c" "nbaOdds c1 = nbaOdds c"
    "footballOdds c1 = footballOdds c"
    using fetchApi_frame [of E ?u ?s0] F by simp_all
  have "fetchNbaOddsForEvent_optic E i (c, w)
         = (case buildOdds E d (emptyOdds (clock w)) of
              Inl err \<Rightarrow> (Inl err, (c1, w1))
            | Inr eo \<Rightarrow>
                (Inr eo, (c1\<lparr>nbaOdds := storeEntry (toString i) eo (nbaOdds c)\<rparr>, w1)))"
    by (simp add: fetchNbaOddsForEvent_optic.simps F a split: sum.splits)
  with F a show ?thesis by blast
qed

lemma fetchFootballOddsForEvent_optic_result:
  "\<exists>d c1 w1. fetchApi E (oddsUrl_optic i bms)
                 (c, w\<lparr>oddsFetches := oddsFetches w @ [(Football, i)]\<rparr>) = (d, (c1, w1))
     \<and> nbaOdds c1 = nbaOdds c \<and> footballOdds c1 = footballOdds c
     \<and> nbaEvents c1 = nbaEvents c \<and> footballEvents c1 = footballEvents c
     \<and> oddsFetches w1 = oddsFetches w @ [(Football, i)]
     \<and> fetchFootballOddsForEvent_optic E i bms (c, w)
         = (case buildOdds E d (emptyOdds (clock w)) of
              Inl err \<Rightarrow> (Inl err, (c1, w1))
            | Inr eo \<Rightarrow>
                (Inr eo,
                 (c1\<lparr>footballOdds := storeEntry (toString i) eo (footballOdds c)\<rparr>, w1)))"
proof -
  let ?s0 = "(c, w\<lparr>oddsFetches := oddsFetches w @ [(Football, i)]\<rparr>)"
  let ?u = "oddsUrl_optic i bms"
  obtain d c1 w1 where F: "fetchApi E ?u ?s0 = (d, (c1, w1))" by (metis prod.exhaust)
  have a: "oddsFetches w1 = oddsFetches w @ [(Football, i)]" "nbaEvents c1 = nbaEvents c"
    "footballEvents c1 = footballEvents c" "nbaOdds c1 = nbaOdds c"
    "footballOdds c1 = footballOdds c"
    using fetchApi_frame [of E ?u ?s0] F by simp_all
  have "fetchFootballOddsForEvent_optic E i bms (c, w)
         = (case buildOdds E d (emptyOdds (clock w)) of
              Inl err \<Rightarrow> (Inl err, (c1, w1))
            | Inr eo \<Rightarrow>
                (Inr eo,
                 (c1\<lparr>footballOdds := storeEntry (toString i) eo (footballOdds c)\<rparr>, w1)))"
    by (simp add: fetchFootballOddsForEvent_optic.simps F a split: sum.splits)
  with F a show ?thesis by blast
qed

lemma fetchNbaOddsForEvent_optic_stores:
  "fst (fetchNbaOddsForEvent_optic E i (oc, w)) = Inr eo \<Longrightarrow>
     (toString i \<noteq> ''__proto__'' \<longrightarrow>
        map_of (nbaOdds (fst (snd (fetchNbaOddsForEvent_optic E i (oc, w))))) (toString i)
          = Some eo)
     \<and> cachedAt eo = clock w
     \<and> (\<forall>k. k \<noteq> toString i \<longrightarrow>
          map_of (nbaOdds (fst (snd (fetchNbaOddsForEvent_optic E i (oc, w))))) k
            = map_of (nbaOdds oc) k)"
  "fst (fetchNbaOddsForEvent_optic E i (oc, w)) = Inl err \<Longrightarrow>
     nbaOdds (fst (snd (fetchNbaOddsForEvent_optic E i (oc, w)))) = nbaOdds oc"
  "\<forall>n u. \<exists>m. fetchOutcome (snd (upstream E n u)) = Inl m \<Longrightarrow>
     fst (fetchNbaOddsForEvent_optic E i (oc, w)) = Inr (emptyOdds (clock w))"
proof -
  obtain d c1 w1 where
    F: "fetchApi E (oddsUrl_optic i NBA_BOOKMAKERS_optic)
          (oc, w\<lparr>oddsFetches := oddsFetches w @ [(Nba, i)]\<rparr>) = (d, (c1, w1))"
    and a: "nbaOdds c1 = nbaOdds oc"
    and r: "fetchNbaOddsForEvent_optic E i (oc, w)
         = (case buildOdds E d (emptyOdds (clock w)) of
              Inl err \<Rightarrow> (Inl err, (c1, w1))
            | Inr eo \<Rightarrow>
                (Inr eo, (c1\<lparr>nbaOdds := storeEntry (toString i) eo (nbaOdds oc)\<rparr>, w1)))"
    using fetchNbaOddsForEvent_optic_result [of E i oc w] by blast
  show "(toString i \<noteq> ''__proto__'' \<longrightarrow>
        map_of (nbaOdds (fst (snd (fetchNbaOddsForEvent_optic E i (oc, w))))) (toString i)
          = Some eo)
     \<and> cachedAt eo = clock w
     \<and> (\<forall>k. k \<noteq> toString i \<longrightarrow>
          map_of (nbaOdds (fst (snd (fetchNbaOddsForEvent_optic E i (oc, w))))) k
            = map_of (nbaOdds oc) k)"
    if "fst (fetchNbaOddsForEvent_optic E i (oc, w)) = Inr eo"
  proof (cases "buildOdds E d (emptyOdds (clock w))")
    case (Inl err)
    with that show ?thesis by (simp add: r)
  next
    case (Inr eo1)
    with that have "eo1 = eo" by (simp add: r)
    with Inr show ?thesis
      using buildOdds_cachedAt [OF Inr]
      by (simp add: r map_of_storeEntry_same map_of_storeEntry_other emptyOdds_def)
  qed
  show "nbaOdds (fst (snd (fetchNbaOddsForEvent_optic E i (oc, w)))) = nbaOdds oc"
    if "fst (fetchNbaOddsForEvent_optic E i (oc, w)) = Inl err"
    using that a by (cases "buildOdds E d (emptyOdds (clock w))") (simp_all add: r)
  show "fst (fetchNbaOddsForEvent_optic E i (oc, w)) = Inr (emptyOdds (clock w))"
    if "\<forall>n u. \<exists>m. fetchOutcome (snd (upstream E n u)) = Inl m"
    using fetchApi_allFail [OF that, of "oddsUrl_optic i NBA_BOOKMAKERS_optic"
        "(oc, w\<lparr>oddsFetches := oddsFetches w @ [(Nba, i)]\<rparr>)"] F
    by (simp add: r)
qed

lemma fetchFootballOddsForEvent_optic_stores:
  "fst (fetchFootballOddsForEvent_optic E i bms (oc, w)) = Inr eo \<Longrightarrow>
     (toString i \<noteq> ''__proto__'' \<longrightarrow>
        map_of (footballOdds (fst (snd (fetchFootballOddsForEvent_optic E i bms (oc, w)))))
          (toString i) = Some eo)
     \<and> cachedAt eo = clock w
     \<and> (\<forall>k. k \<noteq> toString i \<longrightarrow>
          map_of (footballOdds (fst (snd (fetchFootballOddsForEvent_optic E i bms (oc, w))))) k
            = map_of (footballOdds oc) k)"
  "fst (fetchFootballOddsForEvent_optic E i bms (oc, w)) = Inl err \<Longrightarrow>
     footballOdds (fst (snd (fetchFootballOddsForEvent_optic E i bms (oc, w)))) = footballOdds oc"
  "\<forall>n u. \<exists>m. fetchOutcome (snd (upstream E n u)) = Inl m \<Longrightarrow>
     fst (fetchFootballOddsForEvent_optic E i bms (oc, w)) = Inr (emptyOdds (clock w))"
proof -
  obtain d c1 w1 where
    F: "fetchApi E (oddsUrl_optic i bms)
          (oc, w\<lparr>oddsFetches := oddsFetches w @ [(Football, i)]\<rparr>) = (d, (c1, w1))"
    and a: "footballOdds c1 = footballOdds oc"
    and r: "fetchFootballOddsForEvent_optic E i bms (oc, w)
         = (case buildOdds E d (emptyOdds (clock w)) of
              Inl err \<Rightarrow> (Inl err, (c1, w1))
            | Inr eo \<Rightarrow>
                (Inr eo,
                 (c1\<lparr>footballOdds := storeEntry (toString i) eo (footballOdds oc)\<rparr>, w1)))"
    using fetchFootballOddsForEvent_optic_result [of E i bms oc w] by blast
  show "(toString i \<noteq> ''__proto__'' \<longrightarrow>
        map_of (footballOdds (fst (snd (fetchFootballOddsForEvent_optic E i bms (oc, w)))))
          (toString i) = Some eo)
     \<and> cachedAt eo = clock w
     \<and> (\<forall>k. k \<noteq> toString i \<longrightarrow>
          map_of (footballOdds (fst (snd (fetchFootballOddsForEvent_optic E i bms (oc, w))))) k
            = map_of (footballOdds oc) k)"
    if "fst (fetchFootballOddsForEvent_optic E i bms (oc, w)) = Inr eo"
  proof (cases "buildOdds E d (emptyOdds (clock w))")
    case (Inl err)
    with that show ?thesis by (simp add: r)
  next
    case (Inr eo1)
    with that have "eo1 = eo" by (simp add: r)
    with Inr show ?thesis
      using buildOdds_cachedAt [OF Inr]
      by (simp add: r map_of_storeEntry_same map_of_storeEntry_other emptyOdds_def)
  qed
  show "footballOdds (fst (snd (fetchFootballOddsForEvent_optic E i bms (oc, w))))
          = footballOdds oc"
    if "fst (fetchFootballOddsForEvent_optic E i bms (oc, w)) = Inl err"
    using that a by (cases "buildOdds E d (emptyOdds (clock w))") (simp_all add: r)
  show "fst (fetchFootballOddsForEvent_optic E i bms (oc, w)) = Inr (emptyOdds (clock w))"
    if "\<forall>n u. \<exists>m. fetchOutcome (snd (upstream E n u)) = Inl m"
    using fetchApi_allFail [OF that, of "oddsUrl_optic i bms"
        "(oc, w\<lparr>oddsFetches := oddsFetches w @ [(Football, i)]\<rparr>)"] F
    by (simp add: r)
qed

text \<open>
  Entries of the odds tables change only where a \<^verbatim>\<open>fetch...OddsForEvent\<close> was entered:
  first for the rate-limited service, method by method.
\<close>

lemma fetchedKeys_Nil [simp]: "fetchedKeys sp [] = {}"
  by (simp add: fetchedKeys_def)

lemma fetchedKeys_append: "fetchedKeys sp (xs @ ys) = fetchedKeys sp xs \<union> fetchedKeys sp ys"
  by (auto simp: fetchedKeys_def)

lemma fetchedKeys_single:
  "fetchedKeys sp [(sp', i)] = (if sp' = sp then {toString i} else {})"
  by (auto simp: fetchedKeys_def)

lemma oddsOnlyByFetch_same:
  "oddsFetches (snd s') = oddsFetches (snd s) \<Longrightarrow> nbaOdds (fst s') = nbaOdds (fst s)
    \<Longrightarrow> footballOdds (fst s') = footballOdds (fst s) \<Longrightarrow> oddsOnlyByFetch s s'"
  unfolding oddsOnlyByFetch_def by (rule exI [where x = "[]"]) simp

lemma oddsOnlyByFetch_refl [simp]: "oddsOnlyByFetch s s"
  by (simp add: oddsOnlyByFetch_same)

lemma oddsOnlyByFetch_trans:
  assumes "oddsOnlyByFetch s s1" and "oddsOnlyByFetch s1 s2"
  shows "oddsOnlyByFetch s s2"
proof -
  obtain n1 where a: "oddsFetches (snd s1) = oddsFetches (snd s) @ n1"
    and an: "\<And>k. k \<notin> fetchedKeys Nba n1 \<Longrightarrow> ''__proto__'' \<notin> fetchedKeys Nba n1
                \<Longrightarrow> map_of (nbaOdds (fst s1)) k = map_of (nbaOdds (fst s)) k"
    and af: "\<And>k. k \<notin> fetchedKeys Football n1 \<Longrightarrow> ''__proto__'' \<notin> fetchedKeys Football n1
                \<Longrightarrow> map_of (footballOdds (fst s1)) k = map_of (footballOdds (fst s)) k"
    using assms(1) unfolding oddsOnlyByFetch_def by blast
  obtain n2 where b: "oddsFetches (snd s2) = oddsFetches (snd s1) @ n2"
    and bn: "\<And>k. k \<notin> fetchedKeys Nba n2 \<Longrightarrow> ''__proto__'' \<notin> fetchedKeys Nba n2
                \<Longrightarrow> map_of (nbaOdds (fst s2)) k = map_of (nbaOdds (fst s1)) k"
    and bf: "\<And>k. k \<notin> fetchedKeys Football n2 \<Longrightarrow> ''__proto__'' \<notin> fetchedKeys Football n2
                \<Longrightarrow> map_of (footballOdds (fst s2)) k = map_of (footballOdds (fst s1)) k"
    using assms(2) unfolding oddsOnlyByFetch_def by blast
  have h: "oddsFetches (snd s2) = oddsFetches (snd s) @ (n1 @ n2)" by (simp add: a b)
  have n: "map_of (nbaOdds (fst s2)) k = map_of (nbaOdds (fst s)) k"
    if "k \<notin> fetchedKeys Nba (n1 @ n2)" "''__proto__'' \<notin> fetchedKeys Nba (n1 @ n2)" for k
    using that an [of k] bn [of k] by (simp add: fetchedKeys_append)
  have f: "map_of (footballOdds (fst s2)) k = map_of (footballOdds (fst s)) k"
    if "k \<notin> fetchedKeys Football (n1 @ n2)" "''__proto__'' \<notin> fetchedKeys Football (n1 @ n2)"
    for k
    using that af [of k] bf [of k] by (simp add: fetchedKeys_append)
  show ?thesis
    unfolding oddsOnlyByFetch_def using h n f by blast
qed

lemma oddsOnlyByFetch_sleep [simp]: "oddsOnlyByFetch s (sleep ms s)"
  by (rule oddsOnlyByFetch_same) simp_all

lemma oddsOnlyByFetch_sameStore:
  "sameStore (fst s) (fst s') \<Longrightarrow> oddsFetches (snd s') = oddsFetches (snd s)
    \<Longrightarrow> oddsOnlyByFetch s s'"
  by (rule oddsOnlyByFetch_same) (simp_all add: sameStore_fields)

lemma checkRateLimit_only: "oddsOnlyByFetch s (snd (checkRateLimit E s))"
  by (rule oddsOnlyByFetch_sameStore) (simp_all add: checkRateLimit_sameStore')

lemma getRemainingCalls_snd: "snd (getRemainingCalls E s) = snd (checkRateLimit E s)"
  by (simp add: getRemainingCalls.simps split: prod.splits)

lemma fetchNbaEvents_only: "oddsOnlyByFetch s (snd (fetchNbaEvents E s))"
  by (rule oddsOnlyByFetch_same) simp_all

lemma fetchFootballEvents_only: "oddsOnlyByFetch s (snd (fetchFootballEvents E lg s))"
  by (rule oddsOnlyByFetch_same) simp_all

lemma fetchNbaOddsForEvent_only: "oddsOnlyByFetch s (snd (fetchNbaOddsForEvent E i s))"
proof -
  obtain c w where s: "s = (c, w)" by (cases s)
  show ?thesis
    unfolding oddsOnlyByFetch_def s
    by (rule exI [where x = "[(Nba, i)]"])
       (simp add: fetchNbaOddsForEvent_stores fetchedKeys_single)
qed

lemma fetchFootballOddsForEvent_only:
  "oddsOnlyByFetch s (snd (fetchFootballOddsForEvent E i bms s))"
proof -
  obtain c w where s: "s = (c, w)" by (cases s)
  show ?thesis
    unfolding oddsOnlyByFetch_def s
    by (rule exI [where x = "[(Football, i)]"])
       (simp add: fetchFootballOddsForEvent_stores fetchedKeys_single)
qed

lemma oddsRefreshLoop_only:
  assumes "\<And>i s. oddsOnlyByFetch s (snd (fetchOne E i s))"
  shows "oddsOnlyByFetch s (oddsRefreshLoop fetchOne E evs s)"
proof (induction evs arbitrary: s)
  case Nil
  show ?case by simp
next
  case (Cons e evs)
  obtain ok s1 where chk: "checkRateLimit E s = (ok, s1)" by (metis prod.exhaust)
  have a: "oddsOnlyByFetch s s1" using checkRateLimit_only [of s E] chk by simp
  let ?s2 = "snd (fetchOne E (getProp e ''id'') s1)"
  have b: "oddsOnlyByFetch s1 (sleep 100 ?s2)"
    using assms [of s1 "getProp e ''id''"] oddsOnlyByFetch_sleep [of ?s2 100]
    by (rule oddsOnlyByFetch_trans)
  have "oddsOnlyByFetch s (oddsRefreshLoop fetchOne E evs (sleep 100 ?s2))"
    using a b Cons.IH [of "sleep 100 ?s2"] by (blast intro: oddsOnlyByFetch_trans)
  then show ?case using a by (simp add: chk)
qed

lemma leaguesLoop_only: "oddsOnlyByFetch s (leaguesLoop E lgs s)"
proof (induction lgs arbitrary: s)
  case Nil
  show ?case by simp
next
  case (Cons lg lgs)
  obtain ok s1 where chk: "checkRateLimit E s = (ok, s1)" by (metis prod.exhaust)
  have a: "oddsOnlyByFetch s s1" using checkRateLimit_only [of s E] chk by simp
  let ?s2 = "snd (fetchFootballEvents E lg s1)"
  have b: "oddsOnlyByFetch s1 (sleep 100 ?s2)"
    using fetchFootballEvents_only [of s1 E lg] oddsOnlyByFetch_sleep [of ?s2 100]
    by (rule oddsOnlyByFetch_trans)
  have "oddsOnlyByFetch s (leaguesLoop E lgs (sleep 100 ?s2))"
    using a b Cons.IH [of "sleep 100 ?s2"] by (blast intro: oddsOnlyByFetch_trans)
  then show ?case using a by (simp add: chk)
qed

lemma ensureNbaEvents_only: "oddsOnlyByFetch s (ensureNbaEvents E s)"
  by (simp add: ensureNbaEvents_def fetchNbaEvents_only)

lemma refreshNbaOdds_only: "oddsOnlyByFetch s (snd (refreshNbaOdds E s))"
proof -
  let ?s1 = "ensureNbaEvents E s"
  let ?up = "upcomingEvents E (clock (snd ?s1) + threeDaysMs) (nbaEvents (fst ?s1))"
  have a: "oddsOnlyByFetch s ?s1" by (rule ensureNbaEvents_only)
  show ?thesis
  proof (cases "readPropError ''date'' (nbaEvents (fst ?s1))")
    case (Some err)
    then show ?thesis using a by (simp add: refreshNbaOdds.simps Let_def)
  next
    case None
    obtain c2 w2 where L: "oddsRefreshLoop fetchNbaOddsForEvent E ?up ?s1 = (c2, w2)"
      by (metis prod.exhaust)
    have "oddsOnlyByFetch ?s1 (c2, w2)"
      using oddsRefreshLoop_only [where fetchOne = fetchNbaOddsForEvent and E = E
          and evs = ?up and s = ?s1] fetchNbaOddsForEvent_only L
      by simp
    moreover have "oddsOnlyByFetch (c2, w2) (c2\<lparr>lastNbaOddsUpdate := Some (clock w2)\<rparr>, w2)"
      by (rule oddsOnlyByFetch_same) simp_all
    ultimately have "oddsOnlyByFetch s (c2\<lparr>lastNbaOddsUpdate := Some (clock w2)\<rparr>, w2)"
      using a by (blast intro: oddsOnlyByFetch_trans)
    then show ?thesis by (simp add: refreshNbaOdds.simps Let_def None L)
  qed
qed

lemma refreshFootballOdds_only: "oddsOnlyByFetch s (refreshFootballOdds E s)"
proof -
  let ?s1 = "leaguesLoop E FOOTBALL_LEAGUES s"
  let ?up = "upcomingEvents E (clock (snd ?s1) + threeDaysMs)
               (collectEvents FOOTBALL_LEAGUES (footballEvents (fst ?s1)))"
  let ?f = "\<lambda>E' eventId. fetchFootballOddsForEvent E' eventId FOOTBALL_BOOKMAKERS"
  have a: "oddsOnlyByFetch s ?s1" by (rule leaguesLoop_only)
  obtain c2 w2 where L: "oddsRefreshLoop ?f E ?up ?s1 = (c2, w2)"
    by (metis prod.exhaust)
  have "oddsOnlyByFetch ?s1 (c2, w2)"
    using oddsRefreshLoop_only [where fetchOne = ?f and E = E and evs = ?up and s = ?s1]
      fetchFootballOddsForEvent_only L
    by simp
  moreover have "oddsOnlyByFetch (c2, w2) (c2\<lparr>lastFootballOddsUpdate := Some (clock w2)\<rparr>, w2)"
    by (rule oddsOnlyByFetch_same) simp_all
  ultimately have "oddsOnlyByFetch s (c2\<lparr>lastFootballOddsUpdate := Some (clock w2)\<rparr>, w2)"
    using a by (blast intro: oddsOnlyByFetch_trans)
  then show ?thesis by (simp add: refreshFootballOdds.simps Let_def L)
qed

lemma refreshAll_try_only: "oddsOnlyByFetch s (snd (refreshAll_try E s))"
proof -
  let ?s1 = "snd (fetchNbaEvents E s)"
  obtain r s2 where R: "refreshNbaOdds E ?s1 = (r, s2)" by (metis prod.exhaust)
  have a: "oddsOnlyByFetch s s2"
    using fetchNbaEvents_only [of s E] refreshNbaOdds_only [of ?s1 E] R
    by (auto intro: oddsOnlyByFetch_trans)
  show ?thesis
  proof (cases r)
    case (Inl err)
    then show ?thesis using a by (simp add: refreshAll_try.simps R)
  next
    case (Inr u)
    then show ?thesis
      using a refreshFootballOdds_only [of s2 E]
      by (auto simp: refreshAll_try.simps R intro: oddsOnlyByFetch_trans)
  qed
qed

lemma refreshAll_only: "oddsOnlyByFetch s (snd (refreshAll E s))"
proof -
  obtain c w where s: "s = (c, w)" by (cases s)
  show ?thesis
  proof (cases "isRefreshing c")
    case True
    then show ?thesis by (simp add: s refreshAll.simps)
  next
    case False
    let ?s0 = "(c\<lparr>isRefreshing := True\<rparr>, w)"
    let ?s1 = "snd (getRemainingCalls E ?s0)"
    obtain r c1 w1 where R: "refreshAll_try E ?s1 = (r, (c1, w1))" by (metis prod.exhaust)
    have "oddsOnlyByFetch s ?s0" unfolding s by (rule oddsOnlyByFetch_same) simp_all
    moreover have "oddsOnlyByFetch ?s0 ?s1"
      by (simp add: getRemainingCalls_snd checkRateLimit_only)
    moreover have "oddsOnlyByFetch ?s1 (c1, w1)"
      using refreshAll_try_only [of ?s1 E] R by simp
    ultimately have a: "oddsOnlyByFetch s (c1, w1)"
      by (blast intro: oddsOnlyByFetch_trans)
    have b: "oddsOnlyByFetch (c1, w1) (c1\<lparr>lastError := e, isRefreshing := False\<rparr>, w1)" for e
      by (rule oddsOnlyByFetch_same) simp_all
    have b': "oddsOnlyByFetch (c1, w1) (c1\<lparr>isRefreshing := False\<rparr>, w1)"
      by (rule oddsOnlyByFetch_same) simp_all
    show ?thesis
    proof (cases r)
      case (Inl err)
      then show ?thesis
        using oddsOnlyByFetch_trans [OF a b] False
        by (simp add: s refreshAll.simps R)
    next
      case (Inr u)
      then show ?thesis
        using oddsOnlyByFetch_trans [OF a b'] False
        by (simp add: s refreshAll.simps R)
    qed
  qed
qed

lemma perform_only: "oddsOnlyByFetch s (perform E a s)"
proof (cases a)
  case CallFetchNbaEvents
  then show ?thesis by (simp add: fetchNbaEvents_only)
next
  case (CallFetchNbaOddsForEvent i)
  then show ?thesis by (simp add: fetchNbaOddsForEvent_only)
next
  case CallRefreshNbaOdds
  then show ?thesis by (simp add: refreshNbaOdds_only)
next
  case (CallFetchFootballEvents lg)
  then show ?thesis by (simp add: fetchFootballEvents_only)
next
  case (CallFetchFootballOddsForEvent i bms)
  then show ?thesis by (simp add: fetchFootballOddsForEvent_only)
next
  case CallRefreshFootballOdds
  then show ?thesis by (simp add: refreshFootballOdds_only)
next
  case CallRefreshAll
  then show ?thesis by (simp add: refreshAll_only)
next
  case CallGetRemainingCalls
  then show ?thesis by (simp add: getRemainingCalls_snd checkRateLimit_only)
next
  case (Elapse ms)
  then show ?thesis by simp
qed

lemma performAll_only: "oddsOnlyByFetch s (performAll E ops s)"
proof (induction ops arbitrary: s)
  case Nil
  show ?case by simp
next
  case (Cons a ops)
  show ?case
    using perform_only [of s E a] Cons.IH [of "perform E a s"]
    by (auto intro: oddsOnlyByFetch_trans)
qed

text \<open>The same for the methods of the OpticOdds service.\<close>

lemma fetchNbaEvents_optic_only: "oddsOnlyByFetch s (snd (fetchNbaEvents_optic E s))"
  by (rule oddsOnlyByFetch_same) simp_all

lemma fetchFootballEvents_optic_only:
  "oddsOnlyByFetch s (snd (fetchFootballEvents_optic E lg s))"
  by (rule oddsOnlyByFetch_same) simp_all

lemma fetchNbaOddsForEvent_optic_only:
  "oddsOnlyByFetch s (snd (fetchNbaOddsForEvent_optic E i s))"
proof -
  obtain c w where s: "s = (c, w)" by (cases s)
  obtain d c1 w1 where
    a: "nbaOdds c1 = nbaOdds c" "footballOdds c1 = footballOdds c"
       "oddsFetches w1 = oddsFetches w @ [(Nba, i)]"
    and r: "fetchNbaOddsForEvent_optic E i (c, w)
         = (case buildOdds E d (emptyOdds (clock w)) of
              Inl err \<Rightarrow> (Inl err, (c1, w1))
            | Inr eo \<Rightarrow>
                (Inr eo, (c1\<lparr>nbaOdds := storeEntry (toString i) eo (nbaOdds c)\<rparr>, w1)))"
    using fetchNbaOddsForEvent_optic_result [of E i c w] by blast
  show ?thesis
    unfolding oddsOnlyByFetch_def s
    by (rule exI [where x = "[(Nba, i)]"])
       (simp add: r a fetchedKeys_single map_of_storeEntry_other split: sum.splits)
qed

lemma fetchFootballOddsForEvent_optic_only:
  "oddsOnlyByFetch s (snd (fetchFootballOddsForEvent_optic E i bms s))"
proof -
  obtain c w where s: "s = (c, w)" by (cases s)
  obtain d c1 w1 where
    a: "nbaOdds c1 = nbaOdds c" "footballOdds c1 = footballOdds c"
       "oddsFetches w1 = oddsFetches w @ [(Football, i)]"
    and r: "fetchFootballOddsForEvent_optic E i bms (c, w)
         = (case buildOdds E d (emptyOdds (clock w)) of
              Inl err \<Rightarrow> (Inl err, (c1, w1))
            | Inr eo \<Rightarrow>
                (Inr eo,
                 (c1\<lparr>footballOdds := storeEntry (toString i) eo (footballOdds c)\<rparr>, w1)))"
    using fetchFootballOddsForEvent_optic_result [of E i bms c w] by blast
  show ?thesis
    unfolding oddsOnlyByFetch_def s
    by (rule exI [where x = "[(Football, i)]"])
       (simp add: r a fetchedKeys_single map_of_storeEntry_other split: sum.splits)
qed

lemma oddsRefreshLoop_optic_only:
  assumes "\<And>i s. oddsOnlyByFetch s (snd (fetchOne E i s))"
  shows "oddsOnlyByFetch s (snd (oddsRefreshLoop_optic fetchOne E evs s))"
proof (induction evs arbitrary: s)
  case Nil
  show ?case by simp
next
  case (Cons e evs)
  show ?case
  proof (cases "readPropError ''id'' [e]")
    case (Some err)
    then show ?thesis by simp
  next
    case None
    obtain r s1 where F: "fetchOne E (getProp e ''id'') s = (r, s1)" by (metis prod.exhaust)
    have a: "oddsOnlyByFetch s s1" using assms [of s "getProp e ''id''"] F by simp
    show ?thesis
    proof (cases r)
      case (Inl err)
      then show ?thesis using a by (simp add: None F)
    next
      case (Inr eo)
      have "oddsOnlyByFetch s (snd (oddsRefreshLoop_optic fetchOne E evs (sleep 50 s1)))"
        using a oddsOnlyByFetch_sleep [of s1 50] Cons.IH [of "sleep 50 s1"]
        by (blast intro: oddsOnlyByFetch_trans)
      then show ?thesis by (simp add: None F Inr)
    qed
  qed
qed

lemma leaguesLoop_optic_only: "oddsOnlyByFetch s (snd (leaguesLoop_optic E lgs s))"
proof (induction lgs arbitrary: s)
  case Nil
  show ?case by simp
next
  case (Cons lg lgs)
  obtain r s1 where F: "fetchFootballEvents_optic E lg s = (r, s1)" by (metis prod.exhaust)
  have a: "oddsOnlyByFetch s s1" using fetchFootballEvents_optic_only [of s E lg] F by simp
  show ?case
  proof (cases r)
    case (Inl err)
    then show ?thesis using a by (simp add: F)
  next
    case (Inr evs)
    have "oddsOnlyByFetch s (snd (leaguesLoop_optic E lgs (sleep 50 s1)))"
      using a oddsOnlyByFetch_sleep [of s1 50] Cons.IH [of "sleep 50 s1"]
      by (blast intro: oddsOnlyByFetch_trans)
    then show ?thesis by (simp add: F Inr)
  qed
qed

lemma ensureNbaEvents_optic_only: "oddsOnlyByFetch s (snd (ensureNbaEvents_optic E s))"
proof -
  obtain r s1 where F: "fetchNbaEvents_optic E s = (r, s1)" by (metis prod.exhaust)
  have "oddsOnlyByFetch s s1" using fetchNbaEvents_optic_only [of s E] F by simp
  then show ?thesis by (cases r) (simp_all add: ensureNbaEvents_optic_def F)
qed

lemma refreshNbaOdds_optic_only: "oddsOnlyByFetch s (snd (refreshNbaOdds_optic E s))"
proof -
  obtain r s1 where P: "ensureNbaEvents_optic E s = (r, s1)" by (metis prod.exhaust)
  have a: "oddsOnlyByFetch s s1" using ensureNbaEvents_optic_only [of s E] P by simp
  show ?thesis
  proof (cases r)
    case (Inl err)
    then show ?thesis using a by (simp add: refreshNbaOdds_optic.simps P)
  next
    case (Inr u0)
    show ?thesis
    proof (cases "sortError (nbaEvents (fst s1))")
      case (Some err)
      then show ?thesis using a by (simp add: refreshNbaOdds_optic.simps P Inr)
    next
      case None
      obtain r2 c2 w2 where
        L: "oddsRefreshLoop_optic fetchNbaOddsForEvent_optic E
              (sortByDate E (nbaEvents (fst s1))) s1 = (r2, (c2, w2))"
        by (metis prod.exhaust)
      have b: "oddsOnlyByFetch s (c2, w2)"
        using oddsRefreshLoop_optic_only [where fetchOne = fetchNbaOddsForEvent_optic
            and E = E and evs = "sortByDate E (nbaEvents (fst s1))" and s = s1]
          fetchNbaOddsForEvent_optic_only L a
        by (auto intro: oddsOnlyByFetch_trans)
      have c: "oddsOnlyByFetch (c2, w2) (c2\<lparr>lastNbaOddsUpdate := Some (clock w2)\<rparr>, w2)"
        by (rule oddsOnlyByFetch_same) simp_all
      show ?thesis
        using b oddsOnlyByFetch_trans [OF b c]
        by (cases r2) (simp_all add: refreshNbaOdds_optic.simps P Inr None L)
    qed
  qed
qed

lemma refreshFootballOdds_optic_only:
  "oddsOnlyByFetch s (snd (refreshFootballOdds_optic E s))"
proof -
  obtain r s1 where P: "leaguesLoop_optic E FOOTBALL_LEAGUES_optic s = (r, s1)"
    by (metis prod.exhaust)
  have a: "oddsOnlyByFetch s s1" using leaguesLoop_optic_only [of s E FOOTBALL_LEAGUES_optic] P by simp
  let ?f = "\<lambda>E' eventId. fetchFootballOddsForEvent_optic E' eventId FOOTBALL_BOOKMAKERS_optic"
  let ?evs = "sortByDate E (collectEvents FOOTBALL_LEAGUES_optic (footballEvents (fst s1)))"
  show ?thesis
  proof (cases r)
    case (Inl err)
    then show ?thesis using a by (simp add: refreshFootballOdds_optic.simps P)
  next
    case (Inr u0)
    obtain r2 c2 w2 where L: "oddsRefreshLoop_optic ?f E ?evs s1 = (r2, (c2, w2))"
      by (metis prod.exhaust)
    have b: "oddsOnlyByFetch s (c2, w2)"
      using oddsRefreshLoop_optic_only [where fetchOne = ?f and E = E and evs = ?evs and s = s1]
        fetchFootballOddsForEvent_optic_only L a
      by (auto intro: oddsOnlyByFetch_trans)
    have c: "oddsOnlyByFetch (c2, w2) (c2\<lparr>lastFootballOddsUpdate := Some (clock w2)\<rparr>, w2)"
      by (rule oddsOnlyByFetch_same) simp_all
    show ?thesis
      using b oddsOnlyByFetch_trans [OF b c]
      by (cases r2) (simp_all add: refreshFootballOdds_optic.simps P Inr L)
  qed
qed

lemma refreshAll_try_optic_only: "oddsOnlyByFetch s (snd (refreshAll_try_optic E s))"
proof -
  obtain r s1 where F: "fetchNbaEvents_optic E s = (r, s1)" by (metis prod.exhaust)
  have a: "oddsOnlyByFetch s s1" using fetchNbaEvents_optic_only [of s E] F by simp
  show ?thesis
  proof (cases r)
    case (Inl err)
    then show ?thesis using a by (simp add: refreshAll_try_optic.simps F)
  next
    case (Inr evs)
    obtain r2 s2 where R: "refreshNbaOdds_optic E s1 = (r2, s2)" by (metis prod.exhaust)
    have b: "oddsOnlyByFetch s s2"
      using a refreshNbaOdds_optic_only [of s1 E] R by (auto intro: oddsOnlyByFetch_trans)
    show ?thesis
    proof (cases r2)
      case (Inl err)
      then show ?thesis using b by (simp add: refreshAll_try_optic.simps F Inr R)
    next
      case (Inr u)
      then show ?thesis
        using b refreshFootballOdds_optic_only [of s2 E] \<open>r = Inr evs\<close>
        by (auto simp: refreshAll_try_optic.simps F R intro: oddsOnlyByFetch_trans)
    qed
  qed
qed

lemma refreshAll_optic_only: "oddsOnlyByFetch s (snd (refreshAll_optic E s))"
proof -
  obtain c w where s: "s = (c, w)" by (cases s)
  show ?thesis
  proof (cases "isRefreshing c")
    case True
    then show ?thesis by (simp add: s refreshAll_optic.simps)
  next
    case False
    let ?s0 = "(c\<lparr>isRefreshing := True\<rparr>, w)"
    obtain r c1 w1 where R: "refreshAll_try_optic E ?s0 = (r, (c1, w1))"
      by (metis prod.exhaust)
    have "oddsOnlyByFetch s ?s0" unfolding s by (rule oddsOnlyByFetch_same) simp_all
    moreover have "oddsOnlyByFetch ?s0 (c1, w1)"
      using refreshAll_try_optic_only [of ?s0 E] R by simp
    ultimately have a: "oddsOnlyByFetch s (c1, w1)"
      by (blast intro: oddsOnlyByFetch_trans)
    have b: "oddsOnlyByFetch (c1, w1) (c1\<lparr>lastError := e, isRefreshing := False\<rparr>, w1)" for e
      by (rule oddsOnlyByFetch_same) simp_all
    have b': "oddsOnlyByFetch (c1, w1) (c1\<lparr>isRefreshing := False\<rparr>, w1)"
      by (rule oddsOnlyByFetch_same) simp_all
    show ?thesis
    proof (cases r)
      case (Inl err)
      then show ?thesis
        using oddsOnlyByFetch_trans [OF a b] False
        by (simp add: s refreshAll_optic.simps R)
    next
      case (Inr u)
      then show ?thesis
        using oddsOnlyByFetch_trans [OF a b'] False
        by (simp add: s refreshAll_optic.simps R)
    qed
  qed
qed

text \<open>
  C6, as stated, fails: with a snapshot of one bookmaker stored for the event, a
  \<^verbatim>\<open>fetchNbaOddsForEvent\<close> in which all five requests the budget allows fail, and one in
  which the budget blocks every request, both replace the stored snapshot by a snapshot
  without bookmakers.
\<close>

theorem failed_fetch_keeps_snapshot_counterexample:
  "map_of (nbaOdds cacheWithOdds) ''E1''
     = Some ((emptyOdds 500)\<lparr>bookmakers := [(''Kambi'', JObj [])]\<rparr>)
   \<and> length (calls (snd (snd (fetchNbaOddsForEvent (sampleEnv alwaysDown) (JStr ''E1'')
        (cacheWithOdds, world0))))) = 5
   \<and> map_of (nbaOdds (fst (snd (fetchNbaOddsForEvent (sampleEnv alwaysDown) (JStr ''E1'')
        (cacheWithOdds, world0))))) ''E1'' = Some (emptyOdds 1000)
   \<and> calls (snd (snd (fetchNbaOddsForEvent (sampleEnv alwaysDown) (JStr ''E1'')
        (cacheWithOdds\<lparr>apiCallsThisHour := 5\<rparr>, world0)))) = []
   \<and> map_of (nbaOdds (fst (snd (fetchNbaOddsForEvent (sampleEnv alwaysDown) (JStr ''E1'')
        (cacheWithOdds\<lparr>apiCallsThisHour := 5\<rparr>, world0))))) ''E1'' = Some (emptyOdds 1000)"
  by (simp add: fetchNbaOddsForEvent.simps fetchWithRateLimit.simps checkRateLimit.simps
        sampleEnv_def alwaysDown_def cacheWithOdds_def new_cache_def world0_def hourMs_def
        NBA_BOOKMAKERS_def emptyOdds_def sleep_def Let_def mergeNbaBookmaker_def
        storeEntry_def)

text \<open>
  C6, amended. In both services and for both sports, every \<^verbatim>\<open>fetch...OddsForEvent\<close>
  call that returns stores the snapshot it built in that call (stamped with the time of
  the call) under the event id, replacing what was stored there, and leaves the entries of
  the other ids alone (for an event id whose key is not \<^verbatim>\<open>__proto__\<close>); in the
  rate-limited service every call returns, in the OpticOdds service a call that throws
  leaves the table as it was. When no bookmaker data is obtained (every request fails, or
  the budget blocks every request), the snapshot stored has no bookmaker key: the snapshot
  stored before is not kept. And entries change in no other way: over any sequence of
  calls of the rate-limited service, and over every method of the OpticOdds service, the
  entry of a table under a key is what it was unless a \<^verbatim>\<open>fetch...OddsForEvent\<close> of that
  table was entered in between with an event id of that key.
\<close>

theorem fetchOdds_always_stores:
  "(toString eventId \<noteq> ''__proto__'' \<longrightarrow>
      map_of (nbaOdds (fst (snd (fetchNbaOddsForEvent E eventId (c, w))))) (toString eventId)
        = Some (fst (fetchNbaOddsForEvent E eventId (c, w))))
   \<and> cachedAt (fst (fetchNbaOddsForEvent E eventId (c, w))) = clock w
   \<and> (\<forall>k. toString eventId \<noteq> ''__proto__'' \<and> k \<noteq> toString eventId \<longrightarrow>
        map_of (nbaOdds (fst (snd (fetchNbaOddsForEvent E eventId (c, w))))) k
          = map_of (nbaOdds c) k)
   \<and> (toString eventId \<noteq> ''__proto__'' \<longrightarrow>
        map_of (footballOdds (fst (snd (fetchFootballOddsForEvent E eventId bms (c, w)))))
          (toString eventId)
         = Some (fst (fetchFootballOddsForEvent E eventId bms (c, w))))
   \<and> cachedAt (fst (fetchFootballOddsForEvent E eventId bms (c, w))) = clock w
   \<and> (\<forall>k. toString eventId \<noteq> ''__proto__'' \<and> k \<noteq> toString eventId \<longrightarrow>
        map_of (footballOdds (fst (snd (fetchFootballOddsForEvent E eventId bms (c, w))))) k
          = map_of (footballOdds c) k)
   \<and> (\<forall>eo. fst (fetchNbaOddsForEvent_optic E eventId (oc, w)) = Inr eo \<longrightarrow>
        (toString eventId \<noteq> ''__proto__'' \<longrightarrow>
           map_of (nbaOdds (fst (snd (fetchNbaOddsForEvent_optic E eventId (oc, w)))))
             (toString eventId) = Some eo)
        \<and> cachedAt eo = clock w
        \<and> (\<forall>k. toString eventId \<noteq> ''__proto__'' \<and> k \<noteq> toString eventId \<longrightarrow>
             map_of (nbaOdds (fst (snd (fetchNbaOddsForEvent_optic E eventId (oc, w))))) k
               = map_of (nbaOdds oc) k))
   \<and> (\<forall>err. fst (fetchNbaOddsForEvent_optic E eventId (oc, w)) = Inl err \<longrightarrow>
        nbaOdds (fst (snd (fetchNbaOddsForEvent_optic E eventId (oc, w)))) = nbaOdds oc)
   \<and> (\<forall>eo. fst (fetchFootballOddsForEvent_optic E eventId obms (oc, w)) = Inr eo \<longrightarrow>
        (toString eventId \<noteq> ''__proto__'' \<longrightarrow>
           map_of (footballOdds
                     (fst (snd (fetchFootballOddsForEvent_optic E eventId obms (oc, w)))))
             (toString eventId) = Some eo)
        \<and> cachedAt eo = clock w
        \<and> (\<forall>k. toString eventId \<noteq> ''__proto__'' \<and> k \<noteq> toString eventId \<longrightarrow>
             map_of (footballOdds
                       (fst (snd (fetchFootballOddsForEvent_optic E eventId obms (oc, w))))) k
               = map_of (footballOdds oc) k))
   \<and> (\<forall>err. fst (fetchFootballOddsForEvent_optic E eventId obms (oc, w)) = Inl err \<longrightarrow>
        footballOdds (fst (snd (fetchFootballOddsForEvent_optic E eventId obms (oc, w))))
          = footballOdds oc)
   \<and> ((\<forall>n u. \<exists>m. fetchOutcome (snd (upstream E n u)) = Inl m) \<longrightarrow>
        bookmakers (fst (fetchNbaOddsForEvent E eventId (c, w))) = []
        \<and> bookmakers (fst (fetchFootballOddsForEvent E eventId bms (c, w))) = []
        \<and> fst (fetchNbaOddsForEvent_optic E eventId (oc, w)) = Inr (emptyOdds (clock w))
        \<and> fst (fetchFootballOddsForEvent_optic E eventId obms (oc, w))
            = Inr (emptyOdds (clock w)))
   \<and> (MAX_CALLS_PER_HOUR E \<le> apiCallsThisHour c \<and> clock w - hourStartTime c < hourMs \<longrightarrow>
        bookmakers (fst (fetchNbaOddsForEvent E eventId (c, w))) = []
        \<and> bookmakers (fst (fetchFootballOddsForEvent E eventId bms (c, w))) = [])
   \<and> oddsOnlyByFetch s (performAll E ops s)
   \<and> oddsOnlyByFetch os (snd (fetchNbaEvents_optic E os))
   \<and> oddsOnlyByFetch os (snd (fetchFootballEvents_optic E leagueSlug os))
   \<and> oddsOnlyByFetch os (snd (fetchNbaOddsForEvent_optic E eventId os))
   \<and> oddsOnlyByFetch os (snd (fetchFootballOddsForEvent_optic E eventId obms os))
   \<and> oddsOnlyByFetch os (snd (refreshNbaOdds_optic E os))
   \<and> oddsOnlyByFetch os (snd (refreshFootballOdds_optic E os))
   \<and> oddsOnlyByFetch os (snd (refreshAll_optic E os))"
  (is "?N1 \<and> ?N2 \<and> ?N3 \<and> ?F1 \<and> ?F2 \<and> ?F3 \<and> ?ON \<and> ?ONe \<and> ?OF \<and> ?OFe \<and> ?Fail \<and> ?Exh
       \<and> ?P1 \<and> ?P2 \<and> ?P3 \<and> ?P4 \<and> ?P5 \<and> ?P6 \<and> ?P7 \<and> ?P8")
proof -
  have n1: ?N1 and n2: ?N2 and n3: ?N3
    using fetchNbaOddsForEvent_stores [where i = eventId and E = E and c = c and w = w]
    by blast+
  have f1: ?F1 and f2: ?F2 and f3: ?F3
    using fetchFootballOddsForEvent_stores
        [where i = eventId and E = E and c = c and w = w and bms = bms]
    by blast+
  have on: ?ON
    using fetchNbaOddsForEvent_optic_stores(1) [where E = E and i = eventId and oc = oc and w = w] by blast
  have one: ?ONe
    using fetchNbaOddsForEvent_optic_stores(2) [where E = E and i = eventId and oc = oc and w = w] by blast
  have "of": ?OF
    using fetchFootballOddsForEvent_optic_stores(1)
        [where E = E and i = eventId and bms = obms and oc = oc and w = w] by blast
  have ofe: ?OFe
    using fetchFootballOddsForEvent_optic_stores(2)
        [where E = E and i = eventId and bms = obms and oc = oc and w = w] by blast
  have fail: ?Fail
    using fetchOdds_allFail(1) [where E = E and i = eventId and c = c and w = w]
      fetchOdds_allFail(2) [where E = E and i = eventId and c = c and w = w and bms = bms]
      fetchNbaOddsForEvent_optic_stores(3) [where E = E and i = eventId and oc = oc and w = w]
      fetchFootballOddsForEvent_optic_stores(3)
        [where E = E and i = eventId and bms = obms and oc = oc and w = w]
    by blast
  have exh: ?Exh
    using fetchOdds_exhausted [where E = E and eventId = eventId and c = c and w = w
        and bms = bms]
    by blast
  have p1: ?P1 by (rule performAll_only)
  have p2: ?P2 by (rule fetchNbaEvents_optic_only)
  have p3: ?P3 by (rule fetchFootballEvents_optic_only)
  have p4: ?P4 by (rule fetchNbaOddsForEvent_optic_only)
  have p5: ?P5 by (rule fetchFootballOddsForEvent_optic_only)
  have p6: ?P6 by (rule refreshNbaOdds_optic_only)
  have p7: ?P7 by (rule refreshFootballOdds_optic_only)
  have p8: ?P8 by (rule refreshAll_optic_only)
  from n1 n2 n3 f1 f2 f3 on one "of" ofe fail exh p1 p2 p3 p4 p5 p6 p7 p8
  show ?thesis by (intro conjI)
qed

theorem fetchOdds_always_stores_witness:
  "toString (JStr ''E1'') \<noteq> ''__proto__''
   \<and> (\<forall>n u. \<exists>m. fetchOutcome (snd (upstream (sampleEnv alwaysDown) n u)) = Inl m)
   \<and> map_of (nbaOdds cacheWithOdds) ''E1''
       = Some ((emptyOdds 500)\<lparr>bookmakers := [(''Kambi'', JObj [])]\<rparr>)
   \<and> map_of (nbaOdds (fst (snd (fetchNbaOddsForEvent (sampleEnv alwaysDown) (JStr ''E1'')
        (cacheWithOdds, world0))))) ''E1''
       = Some (fst (fetchNbaOddsForEvent (sampleEnv alwaysDown) (JStr ''E1'')
           (cacheWithOdds, world0)))
   \<and> bookmakers (fst (fetchNbaOddsForEvent (sampleEnv alwaysDown) (JStr ''E1'')
        (cacheWithOdds, world0))) = []
   \<and> cachedAt (fst (fetchNbaOddsForEvent (sampleEnv alwaysDown) (JStr ''E1'')
        (cacheWithOdds, world0))) = 1000
   \<and> oddsFetches (snd (performAll (sampleEnv alwaysDown)
        [CallFetchNbaEvents, Elapse 5, CallGetRemainingCalls] (cacheWithOdds, world0))) = []
   \<and> map_of (nbaOdds (fst (performAll (sampleEnv alwaysDown)
        [CallFetchNbaEvents, Elapse 5, CallGetRemainingCalls] (cacheWithOdds, world0)))) ''E1''
       = Some ((emptyOdds 500)\<lparr>bookmakers := [(''Kambi'', JObj [])]\<rparr>)"
proof -
  let ?E = "sampleEnv alwaysDown"
  let ?ops = "[CallFetchNbaEvents, Elapse 5, CallGetRemainingCalls]"
  have h: "\<forall>n u. \<exists>m. fetchOutcome (snd (upstream ?E n u)) = Inl m"
    by (simp add: sampleEnv_def alwaysDown_def)
  have v: "map_of (nbaOdds cacheWithOdds) ''E1''
       = Some ((emptyOdds 500)\<lparr>bookmakers := [(''Kambi'', JObj [])]\<rparr>)"
    by (simp add: cacheWithOdds_def)
  have e: "oddsFetches (snd (performAll ?E ?ops (cacheWithOdds, world0))) = []"
    by (simp add: world0_def getRemainingCalls_snd)
  note t = fetchOdds_always_stores [where E = ?E and eventId = "JStr ''E1''"
        and c = cacheWithOdds and w = world0 and s = "(cacheWithOdds, world0)" and ops = ?ops]
  from t have "oddsOnlyByFetch (cacheWithOdds, world0) (performAll ?E ?ops (cacheWithOdds, world0))"
    by blast
  then obtain new where
    n: "oddsFetches (snd (performAll ?E ?ops (cacheWithOdds, world0)))
          = oddsFetches (snd (cacheWithOdds, world0)) @ new"
    and k: "\<And>k. k \<notin> fetchedKeys Nba new \<Longrightarrow> ''__proto__'' \<notin> fetchedKeys Nba new
              \<Longrightarrow> map_of (nbaOdds (fst (performAll ?E ?ops (cacheWithOdds, world0)))) k
                    = map_of (nbaOdds (fst (cacheWithOdds, world0))) k"
    unfolding oddsOnlyByFetch_def by blast
  from n e have "new = []" by simp
  with k [of "''E1''"] v have
    o: "map_of (nbaOdds (fst (performAll ?E ?ops (cacheWithOdds, world0)))) ''E1''
       = Some ((emptyOdds 500)\<lparr>bookmakers := [(''Kambi'', JObj [])]\<rparr>)"
    by simp
  show ?thesis
    using h v e o t
    by (simp add: world0_def)
qed

section \<open>The merge\<close>

lemma numKeys_card: "numKeys kvs = card (fst ` set kvs)"
  by (simp add: numKeys_def length_remdups_card_conv)

lemma numKeys_update: "numKeys kvs \<le> numKeys (AList.update k v kvs)"
  by (simp add: numKeys_card dom_update card_insert_le)

lemma keys_update: "fst ` set kvs \<subseteq> fst ` set (AList.update k v kvs)"
  by (auto simp: dom_update)

lemma mergeNbaBookmaker_mono:
  "numKeys (bookmakers eo) \<le> numKeys (bookmakers (mergeNbaBookmaker b d eo))"
  "fst ` set (bookmakers eo) \<subseteq> fst ` set (bookmakers (mergeNbaBookmaker b d eo))"
  by (auto simp: mergeNbaBookmaker_def numKeys_update dom_update)

lemma mergeFootballBookmaker_mono:
  "numKeys (bookmakers eo) \<le> numKeys (bookmakers (mergeFootballBookmaker b d eo))"
  "fst ` set (bookmakers eo) \<subseteq> fst ` set (bookmakers (mergeFootballBookmaker b d eo))"
  by (auto simp: mergeFootballBookmaker_def numKeys_update dom_update)

lemma bookmakerLoop_mono:
  assumes "\<And>b d eo. fst ` set (bookmakers eo) \<subseteq> fst ` set (bookmakers (merge b d eo))"
  shows "fst ` set (bookmakers eo)
           \<subseteq> fst ` set (bookmakers (fst (bookmakerLoop merge E eventId bms eo s)))"
proof (induction bms arbitrary: eo s)
  case Nil
  show ?case by simp
next
  case (Cons b bms)
  obtain ok s1 where chk: "checkRateLimit E s = (ok, s1)" by (metis prod.exhaust)
  obtain d s2 where f: "fetchWithRateLimit E (oddsUrl E eventId b) s1 = (d, s2)"
    by (metis prod.exhaust)
  have "fst ` set (bookmakers eo) \<subseteq> fst ` set (bookmakers (merge b d eo))"
    by (rule assms)
  also have "\<dots> \<subseteq> fst ` set (bookmakers
      (fst (bookmakerLoop merge E eventId bms (merge b d eo) (sleep 50 s2))))"
    by (rule Cons.IH)
  finally show ?case by (simp add: chk f)
qed

lemma keys_numKeys: "fst ` set kvs \<subseteq> fst ` set kvs' \<Longrightarrow> numKeys kvs \<le> numKeys kvs'"
  by (simp add: numKeys_card card_mono)

lemma mergeOdd_mono:
  "fst ` set (bookmakers eo) \<subseteq> fst ` set (bookmakers (mergeOdd od eo))"
  by (auto simp: mergeOdd_def Let_def dom_update)

lemma mergeOdds_mono:
  "mergeOdds ods eo = Inr eo' \<Longrightarrow> fst ` set (bookmakers eo) \<subseteq> fst ` set (bookmakers eo')"
proof (induction ods arbitrary: eo)
  case Nil
  then show ?case by simp
next
  case (Cons od ods)
  from Cons.prems have "mergeOdds ods (mergeOdd od eo) = Inr eo'"
    by (simp split: option.splits)
  from Cons.IH [OF this] mergeOdd_mono [of eo od] show ?case by blast
qed

lemma buildOdds_mono:
  assumes "buildOdds E d eo = Inr eo'"
  shows "fst ` set (bookmakers eo) \<subseteq> fst ` set (bookmakers eo')"
proof -
  have "eo' = eo \<or> (\<exists>ods eo1. mergeOdds ods eo = Inr eo1 \<and> bookmakers eo' = bookmakers eo1)
        \<or> bookmakers eo' = bookmakers eo"
    using assms
    by (fastforce simp: buildOdds_def Let_def split: if_splits option.splits sum.splits)
  then show ?thesis
  proof (elim disjE exE conjE)
    fix ods eo1
    assume "mergeOdds ods eo = Inr eo1" "bookmakers eo' = bookmakers eo1"
    then show ?thesis using mergeOdds_mono [of ods eo eo1] by simp
  qed simp_all
qed

text \<open>
  C9. Within one \<^verbatim>\<open>fetch...OddsForEvent\<close> call the merge never removes a bookmaker key:
  after the merge of one bookmaker's result (rate-limited service) or of one odd (OpticOdds)
  the snapshot under construction has the keys it had, so their number has not decreased;
  and so over the whole loop, from any snapshot and state it is entered with.
\<close>

theorem merge_monotonic:
  "numKeys (bookmakers eo) \<le> numKeys (bookmakers (mergeNbaBookmaker b d eo))
   \<and> fst ` set (bookmakers eo) \<subseteq> fst ` set (bookmakers (mergeNbaBookmaker b d eo))
   \<and> numKeys (bookmakers eo) \<le> numKeys (bookmakers (mergeFootballBookmaker b d eo))
   \<and> fst ` set (bookmakers eo) \<subseteq> fst ` set (bookmakers (mergeFootballBookmaker b d eo))
   \<and> numKeys (bookmakers eo)
       \<le> numKeys (bookmakers (fst (bookmakerLoop mergeNbaBookmaker E eventId bms eo s)))
   \<and> numKeys (bookmakers eo)
       \<le> numKeys (bookmakers (fst (bookmakerLoop mergeFootballBookmaker E eventId bms eo s)))
   \<and> numKeys (bookmakers oeo) \<le> numKeys (bookmakers (mergeOdd od oeo))
   \<and> fst ` set (bookmakers oeo) \<subseteq> fst ` set (bookmakers (mergeOdd od oeo))
   \<and> (case mergeOdds ods oeo of
         Inl err \<Rightarrow> True
       | Inr oeo' \<Rightarrow> numKeys (bookmakers oeo) \<le> numKeys (bookmakers oeo'))
   \<and> (case buildOdds E d oeo of
         Inl err \<Rightarrow> True
       | Inr oeo' \<Rightarrow> numKeys (bookmakers oeo) \<le> numKeys (bookmakers oeo'))"
proof -
  have l1: "numKeys (bookmakers eo)
       \<le> numKeys (bookmakers (fst (bookmakerLoop mergeNbaBookmaker E eventId bms eo s)))"
    by (rule keys_numKeys, rule bookmakerLoop_mono) (rule mergeNbaBookmaker_mono(2))
  have l2: "numKeys (bookmakers eo)
       \<le> numKeys (bookmakers (fst (bookmakerLoop mergeFootballBookmaker E eventId bms eo s)))"
    by (rule keys_numKeys, rule bookmakerLoop_mono) (rule mergeFootballBookmaker_mono(2))
  have o1: "(case mergeOdds ods oeo of
         Inl err \<Rightarrow> True
       | Inr oeo' \<Rightarrow> numKeys (bookmakers oeo) \<le> numKeys (bookmakers oeo'))"
  proof (cases "mergeOdds ods oeo")
    case (Inr oeo')
    then show ?thesis using keys_numKeys [OF mergeOdds_mono [OF Inr]] by simp
  qed simp
  have o2: "(case buildOdds E d oeo of
         Inl err \<Rightarrow> True
       | Inr oeo' \<Rightarrow> numKeys (bookmakers oeo) \<le> numKeys (bookmakers oeo'))"
  proof (cases "buildOdds E d oeo")
    case (Inr oeo')
    then show ?thesis using keys_numKeys [OF buildOdds_mono [OF Inr]] by simp
  qed simp
  show ?thesis
    using l1 l2 o1 o2 mergeNbaBookmaker_mono [of eo b d] mergeFootballBookmaker_mono [of eo b d]
      mergeOdd_mono [of oeo od] keys_numKeys [OF mergeOdd_mono [of oeo od]]
    by simp
qed

theorem merge_monotonic_witness:
  "numKeys (bookmakers (emptyOdds 0 :: jsval eventOdds)) = 0
   \<and> numKeys (bookmakers (mergeNbaBookmaker ''Kambi''
        (JObj [(''bookmakers'', JObj [(''Kambi'', JArr [JNum 1])])]) (emptyOdds 0))) = 1
   \<and> numKeys (bookmakers (mergeNbaBookmaker ''Bet365'' JNull
        (mergeNbaBookmaker ''Kambi''
          (JObj [(''bookmakers'', JObj [(''Kambi'', JArr [JNum 1])])]) (emptyOdds 0)))) = 1
   \<and> numKeys (bookmakers (emptyOdds 0 :: jsval eventOdds))
       \<le> numKeys (bookmakers (mergeNbaBookmaker ''Kambi''
            (JObj [(''bookmakers'', JObj [(''Kambi'', JArr [JNum 1])])]) (emptyOdds 0)))"
proof -
  have e: "numKeys (bookmakers (emptyOdds 0 :: jsval eventOdds)) = 0"
    "numKeys (bookmakers (mergeNbaBookmaker ''Kambi''
        (JObj [(''bookmakers'', JObj [(''Kambi'', JArr [JNum 1])])]) (emptyOdds 0))) = 1"
    "numKeys (bookmakers (mergeNbaBookmaker ''Bet365'' JNull
        (mergeNbaBookmaker ''Kambi''
          (JObj [(''bookmakers'', JObj [(''Kambi'', JArr [JNum 1])])]) (emptyOdds 0)))) = 1"
    by (simp_all add: numKeys_def mergeNbaBookmaker_def emptyOdds_def getProp_def)
  show ?thesis
    using e merge_monotonic [where eo = "emptyOdds 0" and b = "''Kambi''"
        and d = "JObj [(''bookmakers'', JObj [(''Kambi'', JArr [JNum 1])])]"]
    by simp
qed

section \<open>Refreshing the odds of a scope\<close>

lemma mset_stableInsert: "mset (stableInsert cmp x ys) = add_mset x (mset ys)"
  by (induction ys) auto

lemma mset_stableSort: "mset (stableSort cmp xs) = mset xs"
  by (induction xs) (simp_all add: stableSort_def mset_stableInsert)

lemma compareDates_valid:
  "validDate E a \<Longrightarrow> validDate E b \<Longrightarrow> (compareDates E a b \<le> 0) = (dateKey E a \<le> dateKey E b)"
  by (auto simp: validDate_def compareDates_def dateKey_def)

lemma stableInsert_insort:
  "validDate E x \<Longrightarrow> list_all (validDate E) ys
    \<Longrightarrow> stableInsert (compareDates E) x ys = insort_key (dateKey E) x ys"
  by (induction ys) (simp_all add: compareDates_valid)

lemma stableSort_sort_key:
  "list_all (validDate E) xs \<Longrightarrow> stableSort (compareDates E) xs = sort_key (dateKey E) xs"
proof (induction xs)
  case Nil
  show ?case by (simp add: stableSort_def)
next
  case (Cons x xs)
  then have v: "validDate E x" "list_all (validDate E) xs" by simp_all
  have "stableSort (compareDates E) (x # xs)
          = stableInsert (compareDates E) x (stableSort (compareDates E) xs)"
    by (simp add: stableSort_def)
  also have "\<dots> = stableInsert (compareDates E) x (sort_key (dateKey E) xs)"
    using Cons.IH [OF v(2)] by simp
  also have "\<dots> = insort_key (dateKey E) x (sort_key (dateKey E) xs)"
    using v by (intro stableInsert_insort) (simp_all add: list_all_iff)
  finally show ?case by (simp add: sort_key_def)
qed

lemma sortByDate_valid:
  "list_all (validDate E) evs \<Longrightarrow> sortByDate E evs = sort_key (dateKey E) evs"
  by (simp add: sortByDate_def stableSort_sort_key)

lemma sortByDate_mset:
  "list_all (validDate E) evs \<or> mset (engineSort E (compareDates E) evs) = mset evs
    \<Longrightarrow> mset (sortByDate E evs) = mset evs"
  by (auto simp: sortByDate_def mset_stableSort)

lemma sortByDate_sorted:
  "list_all (validDate E) evs \<Longrightarrow> sorted (map (dateKey E) (sortByDate E evs))"
  by (simp add: sortByDate_valid)

lemma upcomingEvents_mset:
  "list_all (validDate E) evs \<or> mset (engineSort E (compareDates E) evs) = mset evs
    \<Longrightarrow> mset (upcomingEvents E h evs) = filter_mset (withinHorizon E h) (mset evs)"
  by (simp add: upcomingEvents_def sortByDate_mset)

lemma upcomingEvents_sorted:
  "list_all (validDate E) evs \<Longrightarrow> sorted (map (dateKey E) (upcomingEvents E h evs))"
  by (simp add: upcomingEvents_def sortByDate_valid sorted_filter)

lemma withinHorizon_valid:
  "withinHorizon E h e = (validDate E e \<and> dateKey E e \<le> h)"
  by (simp add: withinHorizon_def validDate_def dateKey_def split: option.splits)

lemma checkRateLimit_fails:
  "\<not> fst (checkRateLimit E s) \<Longrightarrow> budgetExhausted E (snd (checkRateLimit E s))"
  by (cases s) (auto simp: checkRateLimit_cases budgetExhausted_def hourMs_def split: if_splits)

lemma checkRateLimit_passes: "fst (checkRateLimit E s) \<Longrightarrow> \<not> budgetExhausted E s"
  by (cases s) (auto simp: checkRateLimit_cases budgetExhausted_def hourMs_def split: if_splits)

lemma fetchNbaOddsForEvent_oddsFetches:
  "oddsFetches (snd (snd (fetchNbaOddsForEvent E i s))) = oddsFetches (snd s) @ [(Nba, i)]"
  by (cases s) (simp add: fetchNbaOddsForEvent_stores(5))

lemma fetchFootballOddsForEvent_oddsFetches:
  "oddsFetches (snd (snd (fetchFootballOddsForEvent E i bms s)))
     = oddsFetches (snd s) @ [(Football, i)]"
  by (cases s) (simp add: fetchFootballOddsForEvent_stores(5))

text \<open>
  The loop calls the method for the first \<open>k\<close> events, in order, where \<open>k\<close> is the
  position of the first event before which the budget test fails (the length of the list
  when it never fails).
\<close>

lemma oddsRefreshLoop_prefix:
  assumes one: "\<And>i s. oddsFetches (snd (snd (fetchOne E i s))) = oddsFetches (snd s) @ [(sp, i)]"
  shows "\<exists>k\<le>length evs.
           oddsFetches (snd (oddsRefreshLoop fetchOne E evs s))
             = oddsFetches (snd s) @ map (\<lambda>e. (sp, idOf e)) (take k evs)
           \<and> (\<forall>j<k. fst (checkRateLimit E (oddsRefreshLoop fetchOne E (take j evs) s))
                    \<and> \<not> budgetExhausted E (oddsRefreshLoop fetchOne E (take j evs) s))
           \<and> (k < length evs \<longrightarrow>
                \<not> fst (checkRateLimit E (oddsRefreshLoop fetchOne E (take k evs) s))
                \<and> budgetExhausted E (oddsRefreshLoop fetchOne E evs s))"
proof (induction evs arbitrary: s)
  case Nil
  show ?case by simp
next
  case (Cons e evs)
  obtain ok s1 where chk: "checkRateLimit E s = (ok, s1)" by (metis prod.exhaust)
  have s1: "snd s1 = snd s" using checkRateLimit_snd_snd [of E s] chk by simp
  show ?case
  proof (cases ok)
    case False
    have "budgetExhausted E s1" using False checkRateLimit_fails [of E s] chk by simp
    then show ?thesis
      using False by (intro exI [where x = 0]) (simp add: chk s1)
  next
    case True
    let ?s2 = "sleep 100 (snd (fetchOne E (getProp e ''id'') s1))"
    have rr: "oddsRefreshLoop fetchOne E (e # xs) s = oddsRefreshLoop fetchOne E xs ?s2" for xs
      using True by (simp add: chk)
    have o2: "oddsFetches (snd ?s2) = oddsFetches (snd s) @ [(sp, idOf e)]"
      by (simp add: one s1 idOf_def)
    from Cons.IH [of ?s2] obtain k where k: "k \<le> length evs"
      and kf: "oddsFetches (snd (oddsRefreshLoop fetchOne E evs ?s2))
                 = oddsFetches (snd ?s2) @ map (\<lambda>e. (sp, idOf e)) (take k evs)"
      and kj: "\<And>j. j < k \<Longrightarrow>
                 fst (checkRateLimit E (oddsRefreshLoop fetchOne E (take j evs) ?s2))
                 \<and> \<not> budgetExhausted E (oddsRefreshLoop fetchOne E (take j evs) ?s2)"
      and ke: "k < length evs \<longrightarrow>
                 \<not> fst (checkRateLimit E (oddsRefreshLoop fetchOne E (take k evs) ?s2))
                 \<and> budgetExhausted E (oddsRefreshLoop fetchOne E evs ?s2)"
      by blast
    have p0: "fst (checkRateLimit E s)" using True chk by simp
    have a: "Suc k \<le> length (e # evs)" using k by simp
    have b: "oddsFetches (snd (oddsRefreshLoop fetchOne E (e # evs) s))
               = oddsFetches (snd s) @ map (\<lambda>e. (sp, idOf e)) (take (Suc k) (e # evs))"
      by (simp add: rr kf one s1 idOf_def del: oddsRefreshLoop.simps)
    have c: "fst (checkRateLimit E (oddsRefreshLoop fetchOne E (take j (e # evs)) s))
             \<and> \<not> budgetExhausted E (oddsRefreshLoop fetchOne E (take j (e # evs)) s)"
      if "j < Suc k" for j
    proof (cases j)
      case 0
      then show ?thesis using p0 checkRateLimit_passes [OF p0] by simp
    next
      case (Suc j')
      with that have "j' < k" by simp
      from kj [OF this] show ?thesis by (simp add: Suc rr del: oddsRefreshLoop.simps)
    qed
    have d: "Suc k < length (e # evs) \<longrightarrow>
               \<not> fst (checkRateLimit E (oddsRefreshLoop fetchOne E (take (Suc k) (e # evs)) s))
               \<and> budgetExhausted E (oddsRefreshLoop fetchOne E (e # evs) s)"
      using ke by (simp add: rr del: oddsRefreshLoop.simps)
    from a b c d show ?thesis by blast
  qed
qed

lemma readPropError_None: "\<not> list_ex nullish evs \<Longrightarrow> readPropError k evs = None"
  by (simp add: readPropError_def find_nullish_None)

lemma readPropError_Some: "list_ex nullish evs \<Longrightarrow> \<exists>err. readPropError k evs = Some err"
proof -
  assume "list_ex nullish evs"
  then have "find nullish evs \<noteq> None" by (auto simp: find_None_iff list_ex_iff)
  then show ?thesis by (auto simp: readPropError_def)
qed

lemma leaguesLoop_oddsFetches [simp]:
  "oddsFetches (snd (leaguesLoop E lgs s)) = oddsFetches (snd s)"
proof (induction lgs arbitrary: s)
  case Nil
  show ?case by simp
next
  case (Cons lg lgs)
  obtain ok s1 where chk: "checkRateLimit E s = (ok, s1)" by (metis prod.exhaust)
  have s1: "snd s1 = snd s" using checkRateLimit_snd_snd [of E s] chk by simp
  show ?case by (simp add: chk s1 Cons.IH)
qed

lemma ensureNbaEvents_oddsFetches [simp]:
  "oddsFetches (snd (ensureNbaEvents E s)) = oddsFetches (snd s)"
  by (simp add: ensureNbaEvents_def)

lemma refreshNbaOdds_throws:
  assumes "list_ex nullish (nbaEvents (fst (ensureNbaEvents E s)))"
  shows "\<exists>err. refreshNbaOdds E s = (Inl err, ensureNbaEvents E s)"
proof -
  obtain err where "readPropError ''date'' (nbaEvents (fst (ensureNbaEvents E s))) = Some err"
    using readPropError_Some [OF assms] by blast
  then show ?thesis by (simp add: refreshNbaOdds.simps Let_def)
qed

lemma refreshNbaOdds_order:
  assumes "\<not> list_ex nullish (nbaEvents (fst (ensureNbaEvents E s)))"
  shows "fst (refreshNbaOdds E s) = Inr ()
    \<and> (\<exists>k\<le>length (upcomingEvents E (clock (snd (ensureNbaEvents E s)) + threeDaysMs)
                       (nbaEvents (fst (ensureNbaEvents E s)))).
          oddsFetches (snd (snd (refreshNbaOdds E s)))
            = oddsFetches (snd s)
                @ map (\<lambda>e. (Nba, idOf e)) (take k (upcomingEvents E
                    (clock (snd (ensureNbaEvents E s)) + threeDaysMs)
                    (nbaEvents (fst (ensureNbaEvents E s)))))
          \<and> (\<forall>j<k. fst (checkRateLimit E (oddsRefreshLoop fetchNbaOddsForEvent E
                          (take j (upcomingEvents E
                             (clock (snd (ensureNbaEvents E s)) + threeDaysMs)
                             (nbaEvents (fst (ensureNbaEvents E s)))))
                          (ensureNbaEvents E s)))
                   \<and> \<not> budgetExhausted E (oddsRefreshLoop fetchNbaOddsForEvent E
                          (take j (upcomingEvents E
                             (clock (snd (ensureNbaEvents E s)) + threeDaysMs)
                             (nbaEvents (fst (ensureNbaEvents E s)))))
                          (ensureNbaEvents E s)))
          \<and> (k < length (upcomingEvents E (clock (snd (ensureNbaEvents E s)) + threeDaysMs)
                          (nbaEvents (fst (ensureNbaEvents E s))))
               \<longrightarrow> \<not> fst (checkRateLimit E (oddsRefreshLoop fetchNbaOddsForEvent E
                          (take k (upcomingEvents E
                             (clock (snd (ensureNbaEvents E s)) + threeDaysMs)
                             (nbaEvents (fst (ensureNbaEvents E s)))))
                          (ensureNbaEvents E s)))
                   \<and> budgetExhausted E (snd (refreshNbaOdds E s))))"
proof -
  let ?s1 = "ensureNbaEvents E s"
  let ?up = "upcomingEvents E (clock (snd ?s1) + threeDaysMs) (nbaEvents (fst ?s1))"
  let ?L = "\<lambda>xs. oddsRefreshLoop fetchNbaOddsForEvent E xs ?s1"
  obtain c2 w2 where L: "?L ?up = (c2, w2)" by (metis prod.exhaust)
  have r: "refreshNbaOdds E s = (Inr (), (c2\<lparr>lastNbaOddsUpdate := Some (clock w2)\<rparr>, w2))"
    using readPropError_None [OF assms, of "''date''"] L
    by (simp add: refreshNbaOdds.simps Let_def)
  from oddsRefreshLoop_prefix [where fetchOne = fetchNbaOddsForEvent and E = E and evs = ?up
      and s = ?s1 and sp = Nba, OF fetchNbaOddsForEvent_oddsFetches]
  obtain k where k: "k \<le> length ?up"
    and kf: "oddsFetches (snd (?L ?up))
               = oddsFetches (snd ?s1) @ map (\<lambda>e. (Nba, idOf e)) (take k ?up)"
    and kj: "\<forall>j<k. fst (checkRateLimit E (?L (take j ?up)))
                   \<and> \<not> budgetExhausted E (?L (take j ?up))"
    and ke: "k < length ?up \<longrightarrow>
               \<not> fst (checkRateLimit E (?L (take k ?up))) \<and> budgetExhausted E (?L ?up)"
    by blast
  have f: "oddsFetches (snd (snd (refreshNbaOdds E s)))
             = oddsFetches (snd s) @ map (\<lambda>e. (Nba, idOf e)) (take k ?up)"
    using kf by (simp add: r L)
  have e: "k < length ?up \<longrightarrow>
             \<not> fst (checkRateLimit E (?L (take k ?up)))
             \<and> budgetExhausted E (snd (refreshNbaOdds E s))"
    using ke by (simp add: r L budgetExhausted_def)
  have "fst (refreshNbaOdds E s) = Inr ()" by (simp add: r)
  with k f kj e show ?thesis by blast
qed

lemma refreshFootballOdds_order:
  "\<exists>k\<le>length (upcomingEvents E (clock (snd (leaguesLoop E FOOTBALL_LEAGUES s)) + threeDaysMs)
              (collectEvents FOOTBALL_LEAGUES
                 (footballEvents (fst (leaguesLoop E FOOTBALL_LEAGUES s))))).
      oddsFetches (snd (refreshFootballOdds E s))
        = oddsFetches (snd s)
            @ map (\<lambda>e. (Football, idOf e)) (take k (upcomingEvents E
                (clock (snd (leaguesLoop E FOOTBALL_LEAGUES s)) + threeDaysMs)
                (collectEvents FOOTBALL_LEAGUES
                   (footballEvents (fst (leaguesLoop E FOOTBALL_LEAGUES s))))))
      \<and> (\<forall>j<k. fst (checkRateLimit E (oddsRefreshLoop
                      (\<lambda>E' eventId. fetchFootballOddsForEvent E' eventId FOOTBALL_BOOKMAKERS) E
                      (take j (upcomingEvents E
                         (clock (snd (leaguesLoop E FOOTBALL_LEAGUES s)) + threeDaysMs)
                         (collectEvents FOOTBALL_LEAGUES
                            (footballEvents (fst (leaguesLoop E FOOTBALL_LEAGUES s))))))
                      (leaguesLoop E FOOTBALL_LEAGUES s)))
               \<and> \<not> budgetExhausted E (oddsRefreshLoop
                      (\<lambda>E' eventId. fetchFootballOddsForEvent E' eventId FOOTBALL_BOOKMAKERS) E
                      (take j (upcomingEvents E
                         (clock (snd (leaguesLoop E FOOTBALL_LEAGUES s)) + threeDaysMs)
                         (collectEvents FOOTBALL_LEAGUES
                            (footballEvents (fst (leaguesLoop E FOOTBALL_LEAGUES s))))))
                      (leaguesLoop E FOOTBALL_LEAGUES s)))
      \<and> (k < length (upcomingEvents E
                (clock (snd (leaguesLoop E FOOTBALL_LEAGUES s)) + threeDaysMs)
                (collectEvents FOOTBALL_LEAGUES
                   (footballEvents (fst (leaguesLoop E FOOTBALL_LEAGUES s)))))
           \<longrightarrow> \<not> fst (checkRateLimit E (oddsRefreshLoop
                      (\<lambda>E' eventId. fetchFootballOddsForEvent E' eventId FOOTBALL_BOOKMAKERS) E
                      (take k (upcomingEvents E
                         (clock (snd (leaguesLoop E FOOTBALL_LEAGUES s)) + threeDaysMs)
                         (collectEvents FOOTBALL_LEAGUES
                            (footballEvents (fst (leaguesLoop E FOOTBALL_LEAGUES s))))))
                      (leaguesLoop E FOOTBALL_LEAGUES s)))
               \<and> budgetExhausted E (refreshFootballOdds E s))"
proof -
  let ?s1 = "leaguesLoop E FOOTBALL_LEAGUES s"
  let ?up = "upcomingEvents E (clock (snd ?s1) + threeDaysMs)
               (collectEvents FOOTBALL_LEAGUES (footballEvents (fst ?s1)))"
  let ?f = "\<lambda>E' eventId. fetchFootballOddsForEvent E' eventId FOOTBALL_BOOKMAKERS"
  let ?L = "\<lambda>xs. oddsRefreshLoop ?f E xs ?s1"
  obtain c2 w2 where L: "?L ?up = (c2, w2)" by (metis prod.exhaust)
  have r: "refreshFootballOdds E s = (c2\<lparr>lastFootballOddsUpdate := Some (clock w2)\<rparr>, w2)"
    using L by (simp add: refreshFootballOdds.simps Let_def)
  from oddsRefreshLoop_prefix [where fetchOne = ?f and E = E and evs = ?up and s = ?s1
      and sp = Football, OF fetchFootballOddsForEvent_oddsFetches]
  obtain k where k: "k \<le> length ?up"
    and kf: "oddsFetches (snd (?L ?up))
               = oddsFetches (snd ?s1) @ map (\<lambda>e. (Football, idOf e)) (take k ?up)"
    and kj: "\<forall>j<k. fst (checkRateLimit E (?L (take j ?up)))
                   \<and> \<not> budgetExhausted E (?L (take j ?up))"
    and ke: "k < length ?up \<longrightarrow>
               \<not> fst (checkRateLimit E (?L (take k ?up))) \<and> budgetExhausted E (?L ?up)"
    by blast
  have f: "oddsFetches (snd (refreshFootballOdds E s))
             = oddsFetches (snd s) @ map (\<lambda>e. (Football, idOf e)) (take k ?up)"
    using kf by (simp add: r L)
  have e: "k < length ?up \<longrightarrow>
             \<not> fst (checkRateLimit E (?L (take k ?up)))
             \<and> budgetExhausted E (refreshFootballOdds E s)"
    using ke by (simp add: r L budgetExhausted_def)
  from k f kj e show ?thesis by blast
qed

text \<open>The loop of the OpticOdds service ends before the end of the list only by an error.\<close>

lemma fetchNbaOddsForEvent_optic_oddsFetches:
  "oddsFetches (snd (snd (fetchNbaOddsForEvent_optic E i s))) = oddsFetches (snd s) @ [(Nba, i)]"
proof -
  obtain c w where s: "s = (c, w)" by (cases s)
  obtain d c1 w1 where
    a: "oddsFetches w1 = oddsFetches w @ [(Nba, i)]"
    and r: "fetchNbaOddsForEvent_optic E i (c, w)
         = (case buildOdds E d (emptyOdds (clock w)) of
              Inl err \<Rightarrow> (Inl err, (c1, w1))
            | Inr eo \<Rightarrow>
                (Inr eo, (c1\<lparr>nbaOdds := storeEntry (toString i) eo (nbaOdds c)\<rparr>, w1)))"
    using fetchNbaOddsForEvent_optic_result [of E i c w] by blast
  show ?thesis
    by (cases "buildOdds E d (emptyOdds (clock w))") (simp_all add: s r a)
qed

lemma fetchFootballOddsForEvent_optic_oddsFetches:
  "oddsFetches (snd (snd (fetchFootballOddsForEvent_optic E i bms s)))
     = oddsFetches (snd s) @ [(Football, i)]"
proof -
  obtain c w where s: "s = (c, w)" by (cases s)
  obtain d c1 w1 where
    a: "oddsFetches w1 = oddsFetches w @ [(Football, i)]"
    and r: "fetchFootballOddsForEvent_optic E i bms (c, w)
         = (case buildOdds E d (emptyOdds (clock w)) of
              Inl err \<Rightarrow> (Inl err, (c1, w1))
            | Inr eo \<Rightarrow>
                (Inr eo,
                 (c1\<lparr>footballOdds := storeEntry (toString i) eo (footballOdds c)\<rparr>, w1)))"
    using fetchFootballOddsForEvent_optic_result [of E i bms c w] by blast
  show ?thesis
    by (cases "buildOdds E d (emptyOdds (clock w))") (simp_all add: s r a)
qed

lemma oddsRefreshLoop_optic_prefix:
  assumes one: "\<And>i s. oddsFetches (snd (snd (fetchOne E i s))) = oddsFetches (snd s) @ [(sp, i)]"
  shows "\<exists>k\<le>length evs.
           oddsFetches (snd (snd (oddsRefreshLoop_optic fetchOne E evs s)))
             = oddsFetches (snd s) @ map (\<lambda>e. (sp, idOf e)) (take k evs)
           \<and> (k < length evs \<longrightarrow> (\<exists>err. fst (oddsRefreshLoop_optic fetchOne E evs s) = Inl err))"
proof (induction evs arbitrary: s)
  case Nil
  show ?case by simp
next
  case (Cons e evs)
  show ?case
  proof (cases "readPropError ''id'' [e]")
    case (Some err)
    then show ?thesis by (intro exI [where x = 0]) simp
  next
    case None
    obtain r s1 where f: "fetchOne E (getProp e ''id'') s = (r, s1)" by (metis prod.exhaust)
    have s1: "oddsFetches (snd s1) = oddsFetches (snd s) @ [(sp, idOf e)]"
      using one [of "getProp e ''id''" s] f by (simp add: idOf_def)
    show ?thesis
    proof (cases r)
      case (Inl err)
      then show ?thesis
        using None f s1 by (intro exI [where x = "Suc 0"]) simp
    next
      case (Inr eo)
      from Cons.IH [of "sleep 50 s1"] obtain k where k: "k \<le> length evs"
        and kf: "oddsFetches (snd (snd (oddsRefreshLoop_optic fetchOne E evs (sleep 50 s1))))
                   = oddsFetches (snd (sleep 50 s1)) @ map (\<lambda>e. (sp, idOf e)) (take k evs)"
        and ke: "k < length evs \<longrightarrow>
                   (\<exists>err. fst (oddsRefreshLoop_optic fetchOne E evs (sleep 50 s1)) = Inl err)"
        by blast
      show ?thesis
        using None f s1 Inr k kf ke by (intro exI [where x = "Suc k"]) simp
    qed
  qed
qed

lemma ensureNbaEvents_optic_oddsFetches [simp]:
  "oddsFetches (snd (snd (ensureNbaEvents_optic E s))) = oddsFetches (snd s)"
proof -
  obtain r s1 where F: "fetchNbaEvents_optic E s = (r, s1)" by (metis prod.exhaust)
  have "oddsFetches (snd s1) = oddsFetches (snd s)"
    using fetchNbaEvents_optic_frame(1) [of E s] F by simp
  then show ?thesis by (cases r) (simp_all add: ensureNbaEvents_optic_def F)
qed

lemma leaguesLoop_optic_oddsFetches [simp]:
  "oddsFetches (snd (snd (leaguesLoop_optic E lgs s))) = oddsFetches (snd s)"
proof (induction lgs arbitrary: s)
  case Nil
  show ?case by simp
next
  case (Cons lg lgs)
  obtain r s1 where F: "fetchFootballEvents_optic E lg s = (r, s1)" by (metis prod.exhaust)
  have "oddsFetches (snd s1) = oddsFetches (snd s)"
    using fetchFootballEvents_optic_frame(1) [of E lg s] F by simp
  then show ?case by (cases r) (simp_all add: F Cons.IH)
qed

lemma refreshNbaOdds_optic_throws:
  "fst (ensureNbaEvents_optic E s) = Inl err
    \<Longrightarrow> refreshNbaOdds_optic E s = (Inl err, snd (ensureNbaEvents_optic E s))"
  by (cases "ensureNbaEvents_optic E s") (simp add: refreshNbaOdds_optic.simps)

lemma refreshNbaOdds_optic_order:
  assumes "fst (ensureNbaEvents_optic E s) = Inr ()"
  shows "\<exists>k\<le>length (sortByDate E (nbaEvents (fst (snd (ensureNbaEvents_optic E s))))).
           oddsFetches (snd (snd (refreshNbaOdds_optic E s)))
             = oddsFetches (snd s)
                 @ map (\<lambda>e. (Nba, idOf e))
                     (take k (sortByDate E (nbaEvents (fst (snd (ensureNbaEvents_optic E s))))))
           \<and> (k < length (sortByDate E (nbaEvents (fst (snd (ensureNbaEvents_optic E s)))))
                \<longrightarrow> (\<exists>err. fst (refreshNbaOdds_optic E s) = Inl err))"
proof -
  obtain s1 where p: "ensureNbaEvents_optic E s = (Inr (), s1)"
    using assms by (cases "ensureNbaEvents_optic E s") simp
  have o1: "oddsFetches (snd s1) = oddsFetches (snd s)"
    using ensureNbaEvents_optic_oddsFetches [of E s] p by simp
  let ?evs = "sortByDate E (nbaEvents (fst s1))"
  show ?thesis
  proof (cases "sortError (nbaEvents (fst s1))")
    case (Some err)
    have r: "refreshNbaOdds_optic E s = (Inl err, s1)"
      using Some by (simp add: refreshNbaOdds_optic.simps p)
    show ?thesis
      unfolding p using r o1 by (intro exI [where x = 0]) simp
  next
    case None
    obtain r2 c2 w2 where
      L: "oddsRefreshLoop_optic fetchNbaOddsForEvent_optic E ?evs s1 = (r2, (c2, w2))"
      by (metis prod.exhaust)
    from oddsRefreshLoop_optic_prefix [where fetchOne = fetchNbaOddsForEvent_optic and E = E
        and evs = ?evs and s = s1 and sp = Nba, OF fetchNbaOddsForEvent_optic_oddsFetches]
    obtain k where k: "k \<le> length ?evs"
      and kf: "oddsFetches w2 = oddsFetches (snd s1) @ map (\<lambda>e. (Nba, idOf e)) (take k ?evs)"
      and ke: "k < length ?evs \<longrightarrow> (\<exists>err. r2 = Inl err)"
      using L by auto
    show ?thesis
    proof (cases r2)
      case (Inl err)
      then have "refreshNbaOdds_optic E s = (Inl err, (c2, w2))"
        using None L by (simp add: refreshNbaOdds_optic.simps p)
      then show ?thesis
        unfolding p using k kf o1 by (intro exI [where x = k]) simp
    next
      case (Inr u)
      then have "refreshNbaOdds_optic E s
                   = (Inr (), (c2\<lparr>lastNbaOddsUpdate := Some (clock w2)\<rparr>, w2))"
        using None L by (simp add: refreshNbaOdds_optic.simps p)
      then show ?thesis
        unfolding p using k kf ke o1 Inr by (intro exI [where x = k]) simp
    qed
  qed
qed

lemma refreshFootballOdds_optic_throws:
  "fst (leaguesLoop_optic E FOOTBALL_LEAGUES_optic s) = Inl err
    \<Longrightarrow> refreshFootballOdds_optic E s
          = (Inl err, snd (leaguesLoop_optic E FOOTBALL_LEAGUES_optic s))"
  by (cases "leaguesLoop_optic E FOOTBALL_LEAGUES_optic s")
     (simp add: refreshFootballOdds_optic.simps)

lemma refreshFootballOdds_optic_order:
  assumes "fst (leaguesLoop_optic E FOOTBALL_LEAGUES_optic s) = Inr ()"
  shows "\<exists>k\<le>length (sortByDate E (collectEvents FOOTBALL_LEAGUES_optic
                (footballEvents (fst (snd (leaguesLoop_optic E FOOTBALL_LEAGUES_optic s)))))).
           oddsFetches (snd (snd (refreshFootballOdds_optic E s)))
             = oddsFetches (snd s)
                 @ map (\<lambda>e. (Football, idOf e))
                     (take k (sortByDate E (collectEvents FOOTBALL_LEAGUES_optic
                        (footballEvents
                           (fst (snd (leaguesLoop_optic E FOOTBALL_LEAGUES_optic s)))))))
           \<and> (k < length (sortByDate E (collectEvents FOOTBALL_LEAGUES_optic
                  (footballEvents (fst (snd (leaguesLoop_optic E FOOTBALL_LEAGUES_optic s))))))
                \<longrightarrow> (\<exists>err. fst (refreshFootballOdds_optic E s) = Inl err))"
proof -
  obtain s1 where p: "leaguesLoop_optic E FOOTBALL_LEAGUES_optic s = (Inr (), s1)"
    using assms by (cases "leaguesLoop_optic E FOOTBALL_LEAGUES_optic s") simp
  have o1: "oddsFetches (snd s1) = oddsFetches (snd s)"
    using leaguesLoop_optic_oddsFetches [of E FOOTBALL_LEAGUES_optic s] p by simp
  let ?f = "\<lambda>E' eventId. fetchFootballOddsForEvent_optic E' eventId FOOTBALL_BOOKMAKERS_optic"
  let ?evs = "sortByDate E (collectEvents FOOTBALL_LEAGUES_optic (footballEvents (fst s1)))"
  obtain r2 c2 w2 where L: "oddsRefreshLoop_optic ?f E ?evs s1 = (r2, (c2, w2))"
    by (metis prod.exhaust)
  from oddsRefreshLoop_optic_prefix [where fetchOne = ?f and E = E and evs = ?evs and s = s1
      and sp = Football, OF fetchFootballOddsForEvent_optic_oddsFetches]
  obtain k where k: "k \<le> length ?evs"
    and kf: "oddsFetches w2 = oddsFetches (snd s1) @ map (\<lambda>e. (Football, idOf e)) (take k ?evs)"
    and ke: "k < length ?evs \<longrightarrow> (\<exists>err. r2 = Inl err)"
    using L by auto
  show ?thesis
  proof (cases r2)
    case (Inl err)
    then have "refreshFootballOdds_optic E s = (Inl err, (c2, w2))"
      using L by (simp add: refreshFootballOdds_optic.simps p)
    then show ?thesis
      unfolding p using k kf o1 by (intro exI [where x = k]) simp
  next
    case (Inr u)
    then have "refreshFootballOdds_optic E s
                 = (Inr (), (c2\<lparr>lastFootballOddsUpdate := Some (clock w2)\<rparr>, w2))"
      using L by (simp add: refreshFootballOdds_optic.simps p)
    then show ?thesis
      unfolding p using k kf ke o1 Inr by (intro exI [where x = k]) simp
  qed
qed

text \<open>
  C7, as stated, fails: \<^verbatim>\<open>refreshNbaOdds\<close> of the OpticOdds service has no look-ahead
  horizon (and no budget). With one stored event that starts thirty days ahead, outside
  the three days the rate-limited service looks ahead, it calls
  \<^verbatim>\<open>fetchNbaOddsForEvent\<close> for that event and makes the request.
\<close>

theorem horizon_counterexample:
  "nbaEvents opticFarEvent = [sampleEvent ''E9'' 2592001000]
   \<and> \<not> withinHorizon (sampleEnv alwaysDown) (clock world0 + threeDaysMs)
         (sampleEvent ''E9'' 2592001000)
   \<and> fst (refreshNbaOdds_optic (sampleEnv alwaysDown) (opticFarEvent, world0)) = Inr ()
   \<and> oddsFetches (snd (snd (refreshNbaOdds_optic (sampleEnv alwaysDown) (opticFarEvent, world0))))
       = [(Nba, JStr ''E9'')]
   \<and> calls (snd (snd (refreshNbaOdds_optic (sampleEnv alwaysDown) (opticFarEvent, world0))))
       = [oddsUrl_optic (JStr ''E9'') NBA_BOOKMAKERS_optic]"
  by (simp add: refreshNbaOdds_optic.simps ensureNbaEvents_optic_def
        fetchNbaOddsForEvent_optic.simps fetchApi.simps
        sortError_def sortByDate_def validDate_def stableSort_def readPropError_def
        buildOdds_def withinHorizon_def newDate_def storeEntry_def
        getProp_def sampleEvent_def opticFarEvent_def new_optic_cache_def sampleEnv_def
        alwaysDown_def world0_def threeDaysMs_def Let_def sleep_def)

text \<open>
  C7, amended. In the rate-limited service, \<^verbatim>\<open>refreshNbaOdds\<close> works on the stored NBA
  events (fetched first when none is stored) and \<^verbatim>\<open>refreshFootballOdds\<close> on the events
  of all leagues (refetched first). When a stored NBA event is \<^verbatim>\<open>null\<close>,
  \<^verbatim>\<open>refreshNbaOdds\<close> throws before any call of \<^verbatim>\<open>fetchNbaOddsForEvent\<close>. Otherwise the
  method returns, having called \<^verbatim>\<open>fetch...OddsForEvent\<close> once per event, in order, for
  the first \<open>k\<close> of the upcoming events, where the budget test passed before each of
  these \<open>k\<close> events and, when \<open>k\<close> is not the whole list, failed before the next one,
  leaving the budget exhausted. The upcoming events are the stored events after the sort
  that have a valid date at most three days after the current time: exactly those events
  (as a multiset) when every date is valid or the engine's sort permutes its input, and in
  ascending order of date when every date is valid; with an invalid date among the stored
  events their order is the engine's.

  In the OpticOdds service there is neither horizon nor budget. When fetching the events
  throws, \<^verbatim>\<open>refreshNbaOdds\<close> and \<^verbatim>\<open>refreshFootballOdds\<close> throw that error before any call
  of \<^verbatim>\<open>fetch...OddsForEvent\<close>. Otherwise the method is called once per event, in order,
  for the first \<open>k\<close> of all the sorted events, and \<open>k\<close> is less than their number only
  when the refresh throws. The sorted events are the stored ones in ascending order of
  date when every date is valid.
\<close>

theorem refreshOdds_order:
  "(let s1 = ensureNbaEvents E s;
        up = upcomingEvents E (clock (snd s1) + threeDaysMs) (nbaEvents (fst s1));
        reached = (\<lambda>j. oddsRefreshLoop fetchNbaOddsForEvent E (take j up) s1)
    in (list_ex nullish (nbaEvents (fst s1)) \<longrightarrow>
          (\<exists>err. refreshNbaOdds E s = (Inl err, s1))
          \<and> oddsFetches (snd s1) = oddsFetches (snd s))
     \<and> (\<not> list_ex nullish (nbaEvents (fst s1)) \<longrightarrow>
          fst (refreshNbaOdds E s) = Inr ()
          \<and> (\<exists>k\<le>length up.
                oddsFetches (snd (snd (refreshNbaOdds E s)))
                  = oddsFetches (snd s) @ map (\<lambda>e. (Nba, idOf e)) (take k up)
                \<and> (\<forall>j<k. fst (checkRateLimit E (reached j))
                         \<and> \<not> budgetExhausted E (reached j))
                \<and> (k < length up \<longrightarrow>
                     \<not> fst (checkRateLimit E (reached k))
                     \<and> budgetExhausted E (snd (refreshNbaOdds E s))))))
   \<and> (let s1 = leaguesLoop E FOOTBALL_LEAGUES s;
          up = upcomingEvents E (clock (snd s1) + threeDaysMs)
                 (collectEvents FOOTBALL_LEAGUES (footballEvents (fst s1)));
          reached = (\<lambda>j. oddsRefreshLoop
                            (\<lambda>E' eventId. fetchFootballOddsForEvent E' eventId FOOTBALL_BOOKMAKERS)
                            E (take j up) s1)
      in \<exists>k\<le>length up.
           oddsFetches (snd (refreshFootballOdds E s))
             = oddsFetches (snd s) @ map (\<lambda>e. (Football, idOf e)) (take k up)
           \<and> (\<forall>j<k. fst (checkRateLimit E (reached j)) \<and> \<not> budgetExhausted E (reached j))
           \<and> (k < length up \<longrightarrow>
                \<not> fst (checkRateLimit E (reached k))
                \<and> budgetExhausted E (refreshFootballOdds E s)))
   \<and> (list_all (validDate E) evs \<or> mset (engineSort E (compareDates E) evs) = mset evs \<longrightarrow>
        mset (upcomingEvents E h evs) = filter_mset (withinHorizon E h) (mset evs))
   \<and> withinHorizon E h e = (validDate E e \<and> dateKey E e \<le> h)
   \<and> (list_all (validDate E) evs \<longrightarrow> sorted (map (dateKey E) (upcomingEvents E h evs)))
   \<and> (let p = ensureNbaEvents_optic E os;
          srt = sortByDate E (nbaEvents (fst (snd p)))
      in (\<forall>err. fst p = Inl err \<longrightarrow>
            refreshNbaOdds_optic E os = (Inl err, snd p)
            \<and> oddsFetches (snd (snd p)) = oddsFetches (snd os))
       \<and> (fst p = Inr () \<longrightarrow>
            (\<exists>k\<le>length srt.
               oddsFetches (snd (snd (refreshNbaOdds_optic E os)))
                 = oddsFetches (snd os) @ map (\<lambda>e. (Nba, idOf e)) (take k srt)
               \<and> (k < length srt \<longrightarrow> (\<exists>err. fst (refreshNbaOdds_optic E os) = Inl err)))))
   \<and> (let p = leaguesLoop_optic E FOOTBALL_LEAGUES_optic os;
          srt = sortByDate E
                  (collectEvents FOOTBALL_LEAGUES_optic (footballEvents (fst (snd p))))
      in (\<forall>err. fst p = Inl err \<longrightarrow>
            refreshFootballOdds_optic E os = (Inl err, snd p)
            \<and> oddsFetches (snd (snd p)) = oddsFetches (snd os))
       \<and> (fst p = Inr () \<longrightarrow>
            (\<exists>k\<le>length srt.
               oddsFetches (snd (snd (refreshFootballOdds_optic E os)))
                 = oddsFetches (snd os) @ map (\<lambda>e. (Football, idOf e)) (take k srt)
               \<and> (k < length srt \<longrightarrow>
                    (\<exists>err. fst (refreshFootballOdds_optic E os) = Inl err)))))
   \<and> (list_all (validDate E) evs \<or> mset (engineSort E (compareDates E) evs) = mset evs \<longrightarrow>
        mset (sortByDate E evs) = mset evs)
   \<and> (list_all (validDate E) evs \<longrightarrow> sorted (map (dateKey E) (sortByDate E evs)))"
  (is "?A \<and> ?B \<and> ?C \<and> ?D \<and> ?F \<and> ?G \<and> ?H \<and> ?I \<and> ?J")
proof -
  have a: ?A
    unfolding Let_def
    using refreshNbaOdds_throws [of E s] refreshNbaOdds_order [of E s]
      ensureNbaEvents_oddsFetches [of E s]
    by blast
  have b: ?B
    unfolding Let_def by (rule refreshFootballOdds_order)
  have c: ?C by (rule impI) (rule upcomingEvents_mset)
  have d: ?D by (rule withinHorizon_valid)
  have f: ?F by (rule impI) (rule upcomingEvents_sorted)
  have g: ?G
    unfolding Let_def
    using refreshNbaOdds_optic_throws [of E os] refreshNbaOdds_optic_order [of E os]
      ensureNbaEvents_optic_oddsFetches [of E os]
    by blast
  have h: ?H
    unfolding Let_def
    using refreshFootballOdds_optic_throws [of E os] refreshFootballOdds_optic_order [of E os]
      leaguesLoop_optic_oddsFetches [of E FOOTBALL_LEAGUES_optic os]
    by blast
  have i: ?I by (rule impI) (rule sortByDate_mset)
  have j: ?J by (rule impI) (rule sortByDate_sorted)
  show ?thesis
    by (intro conjI) (rule a b c d f g h i j)+
qed

theorem refreshOdds_order_witness:
  "\<not> list_ex nullish (nbaEvents (fst (ensureNbaEvents (sampleEnv alwaysDown)
        (cacheThreeEvents, world0))))
   \<and> list_all (validDate (sampleEnv alwaysDown)) (nbaEvents cacheThreeEvents)
   \<and> upcomingEvents (sampleEnv alwaysDown) (clock world0 + threeDaysMs) (nbaEvents cacheThreeEvents)
       = [sampleEvent ''E1'' 2000, sampleEvent ''E2'' 5000]
   \<and> sorted (map (dateKey (sampleEnv alwaysDown))
        (upcomingEvents (sampleEnv alwaysDown) (clock world0 + threeDaysMs)
           (nbaEvents cacheThreeEvents)))
   \<and> fst (refreshNbaOdds (sampleEnv alwaysDown) (cacheThreeEvents, world0)) = Inr ()
   \<and> oddsFetches (snd (snd (refreshNbaOdds (sampleEnv alwaysDown) (cacheThreeEvents, world0))))
       = [(Nba, JStr ''E1'')]
   \<and> budgetExhausted (sampleEnv alwaysDown)
        (snd (refreshNbaOdds (sampleEnv alwaysDown) (cacheThreeEvents, world0)))"
proof -
  let ?E = "sampleEnv alwaysDown"
  have h1: "\<not> list_ex nullish (nbaEvents (fst (ensureNbaEvents ?E (cacheThreeEvents, world0))))"
    by (simp add: ensureNbaEvents_def cacheThreeEvents_def sampleEvent_def)
  have h2: "list_all (validDate ?E) (nbaEvents cacheThreeEvents)"
    by (simp add: validDate_def newDate_def getProp_def cacheThreeEvents_def sampleEvent_def)
  have up: "upcomingEvents ?E (clock world0 + threeDaysMs) (nbaEvents cacheThreeEvents)
       = [sampleEvent ''E1'' 2000, sampleEvent ''E2'' 5000]"
    by (simp add: upcomingEvents_def sortByDate_def validDate_def stableSort_def
          compareDates_def withinHorizon_def newDate_def
          getProp_def cacheThreeEvents_def sampleEvent_def world0_def threeDaysMs_def)
  have run: "oddsFetches (snd (snd (refreshNbaOdds ?E (cacheThreeEvents, world0))))
               = [(Nba, JStr ''E1'')]
      \<and> budgetExhausted ?E (snd (refreshNbaOdds ?E (cacheThreeEvents, world0)))"
    by (simp add: refreshNbaOdds.simps ensureNbaEvents_def readPropError_def
          upcomingEvents_def sortByDate_def validDate_def stableSort_def
          compareDates_def withinHorizon_def newDate_def
          getProp_def cacheThreeEvents_def sampleEvent_def world0_def threeDaysMs_def
          fetchNbaOddsForEvent.simps fetchWithRateLimit.simps checkRateLimit.simps
          sampleEnv_def alwaysDown_def new_cache_def hourMs_def NBA_BOOKMAKERS_def
          emptyOdds_def sleep_def Let_def mergeNbaBookmaker_def budgetExhausted_def
          storeEntry_def)
  note t = refreshOdds_order [where E = ?E and s = "(cacheThreeEvents, world0)"
        and evs = "nbaEvents cacheThreeEvents" and h = "clock world0 + threeDaysMs"]
  from t h2 have srt: "sorted (map (dateKey ?E)
        (upcomingEvents ?E (clock world0 + threeDaysMs) (nbaEvents cacheThreeEvents)))"
    by blast
  from t h1 have ret: "fst (refreshNbaOdds ?E (cacheThreeEvents, world0)) = Inr ()"
    unfolding Let_def by blast
  show ?thesis
    using h1 h2 up run srt ret by blast
qed

end
